(* ===== verification/Go_Prelude.thy ===== *)
theory Go_Prelude
  imports Main "HOL-Library.Finite_Map" "HOL-Library.Word" "HOL-Library.Sublist"
begin

text \<open>
  The prelude of the development: the parts of the Go language and of its standard library
  that the GoDNS sources use, and the generic lemmas the components share.

  \<^item> Strings are byte strings (\<^typ>\<open>string\<close>, a list of bytes), as in Go. The operations of
    package \<open>strings\<close> are defined for the arguments the sources pass: one-byte separators for
    \<open>Split\<close>, the cut set \<open>.\<close> for \<open>Trim\<close>, one-byte texts for \<open>ReplaceAll\<close>.
    \<open>TrimSpace\<close> removes every UTF-8 encoded Unicode space, as Go does. \<open>ToLower\<close> lowers the
    ASCII letters and leaves the bytes from 0x80 on as they are, where Go would map a
    non-ASCII letter to its Unicode lower case.
  \<^item> A Go map is a finite map (\<^typ>\<open>('k, 'v) fmap\<close>): no order, a size, a default of \<open>nil\<close>. The
    order in which \<open>range\<close> visits a map is not specified by Go, so an operation that
    ranges over a map takes the order as an argument, restricted by \<open>range_order\<close>.
  \<^item> A duration is an \<open>int64\<close> number of nanoseconds; \<open>int64\<close> writes the wrap-around out. A
    point of time is an unbounded number of nanoseconds.
  \<^item> A file is what \<open>os.Open\<close> and \<open>bufio.Scanner\<close> see of it: the bytes that can be read and
    whether reading them ends in an error. \<open>Scanner\<close> gives the lines \<open>Scan\<close> delivers,
    with the 64 KiB limit on the length of a line.
\<close>

named_theorems go_string "defining equations of the string operations"

section \<open>Strings\<close>

definition HasPrefix :: "string \<Rightarrow> string \<Rightarrow> bool" where
  "HasPrefix s p \<longleftrightarrow> length p \<le> length s \<and> take (length p) s = p"

definition HasSuffix :: "string \<Rightarrow> string \<Rightarrow> bool" where
  "HasSuffix s p \<longleftrightarrow> length p \<le> length s \<and> drop (length s - length p) s = p"

definition TrimPrefix :: "string \<Rightarrow> string \<Rightarrow> string" where
  "TrimPrefix s p = (if HasPrefix s p then drop (length p) s else s)"

fun Split :: "string \<Rightarrow> char \<Rightarrow> string list" where
  "Split [] sep = [[]]"
| "Split (c # cs) sep =
     (if c = sep then [] # Split cs sep
      else case Split cs sep of [] \<Rightarrow> [[c]] | part # parts \<Rightarrow> (c # part) # parts)"

fun Join :: "string list \<Rightarrow> string \<Rightarrow> string" where
  "Join [] sep = []"
| "Join [s] sep = s"
| "Join (s # t # ss) sep = s @ sep @ Join (t # ss) sep"

definition TrimByte :: "char \<Rightarrow> string \<Rightarrow> string" where
  "TrimByte c s = rev (dropWhile (\<lambda>x. x = c) (rev (dropWhile (\<lambda>x. x = c) s)))"

definition ReplaceByte :: "char \<Rightarrow> char \<Rightarrow> string \<Rightarrow> string" where
  "ReplaceByte old new s = map (\<lambda>c. if c = old then new else c) s"

definition lower_byte :: "char \<Rightarrow> char" where
  "lower_byte c =
     (let n = of_char c :: nat in if 65 \<le> n \<and> n \<le> 90 then char_of (n + 32) else c)"

definition ToLower :: "string \<Rightarrow> string" where
  "ToLower s = map lower_byte s"

text \<open>The Unicode white space of \<open>unicode.IsSpace\<close>, each rune as its UTF-8 bytes.\<close>

definition space_runes :: "string list" where
  "space_runes =
     map (\<lambda>ns. map char_of (ns :: nat list))
       ([[0x09], [0x0A], [0x0B], [0x0C], [0x0D], [0x20], [0xC2, 0x85], [0xC2, 0xA0],
         [0xE1, 0x9A, 0x80]]
        @ map (\<lambda>n. [0xE2, 0x80, n]) [0x80, 0x81, 0x82, 0x83, 0x84, 0x85, 0x86, 0x87, 0x88, 0x89,
              0x8A, 0xA8, 0xA9, 0xAF]
        @ [[0xE2, 0x81, 0x9F], [0xE3, 0x80, 0x80]])"

function strip_front :: "string list \<Rightarrow> string \<Rightarrow> string" where
  "strip_front ps s =
     (case find (\<lambda>p. p \<noteq> [] \<and> HasPrefix s p) ps of
        None \<Rightarrow> s
      | Some p \<Rightarrow> strip_front ps (drop (length p) s))"
  by pat_completeness auto
termination
  by (relation "measure (\<lambda>(ps, s). length s)")
     (auto simp: find_Some_iff HasPrefix_def intro!: diff_less)

declare strip_front.simps [simp del]

definition TrimLeftSpace :: "string \<Rightarrow> string" where
  "TrimLeftSpace s = strip_front space_runes s"

definition TrimRightSpace :: "string \<Rightarrow> string" where
  "TrimRightSpace s = rev (strip_front (map rev space_runes) (rev s))"

definition TrimSpace :: "string \<Rightarrow> string" where
  "TrimSpace s = TrimRightSpace (TrimLeftSpace s)"

fun digits_of :: "nat \<Rightarrow> string" where
  "digits_of n =
     (if n < 10 then [char_of (48 + n)] else digits_of (n div 10) @ [char_of (48 + n mod 10)])"

declare digits_of.simps [simp del]

definition Itoa :: "int \<Rightarrow> string" where
  "Itoa i = (if i < 0 then CHR ''-'' # digits_of (nat (- i)) else digits_of (nat i))"

section \<open>Integers of 64 bits\<close>

definition int64 :: "int \<Rightarrow> int" where
  "int64 x = signed_take_bit 63 x"

definition int32 :: "int \<Rightarrow> int" where
  "int32 x = signed_take_bit 31 x"

type_synonym duration = int
type_synonym time = int

abbreviation (input) Second :: duration where
  "Second \<equiv> 1000000000"

definition seconds :: "int \<Rightarrow> duration" where
  "seconds n = int64 (n * Second)"

text \<open>Integer division of Go truncates towards zero.\<close>

definition quot :: "int \<Rightarrow> int \<Rightarrow> int" where
  "quot a b = sgn a * sgn b * (\<bar>a\<bar> div \<bar>b\<bar>)"

section \<open>Maps\<close>

definition range_order :: "'k list \<Rightarrow> ('k, 'v) fmap \<Rightarrow> bool" where
  "range_order ord m \<longleftrightarrow> distinct ord \<and> fset_of_list ord = fmdom m"

definition map_len :: "('k, 'v) fmap \<Rightarrow> nat" where
  "map_len m = fcard (fmdom m)"

section \<open>Files\<close>

record os_file =
  content :: string
  read_err :: bool

type_synonym filesystem = "string \<Rightarrow> os_file option"

definition MaxScanTokenSize :: nat where
  "MaxScanTokenSize = 65536"

definition dropCR :: "string \<Rightarrow> string" where
  "dropCR s = (if s \<noteq> [] \<and> last s = CHR 0x0D then butlast s else s)"

definition raw_lines :: "string \<Rightarrow> string list" where
  "raw_lines s = (let ls = Split s (CHR 0x0A) in if last ls = [] then butlast ls else ls)"

definition Scanner :: "os_file \<Rightarrow> string list \<times> bool" where
  "Scanner f =
     (let ls = raw_lines (content f); ok = takeWhile (\<lambda>l. length l < MaxScanTokenSize) ls
      in (map dropCR ok, length ok < length ls \<or> read_err f))"

section \<open>Panics and interface values\<close>

text \<open>The outcome of code that may panic, with the panic's cause.\<close>

datatype 'a outcome = Panic string | Return 'a

fun bind_outcome :: "'a outcome \<Rightarrow> ('a \<Rightarrow> 'b outcome) \<Rightarrow> 'b outcome" where
  "bind_outcome (Panic e) f = Panic e"
| "bind_outcome (Return x) f = f x"

text \<open>A value of type \<open>interface{}\<close>: a string, an \<open>int\<close>, an \<open>int64\<close>, a map from strings to such
  values, or a struct of a named type. A type assertion looks at the constructor.\<close>

datatype iface =
    IString string
  | IInt int
  | IInt64 int
  | IMap "(string \<times> iface) list"
  | IStruct string

fun assert_string :: "iface option \<Rightarrow> string outcome" where
  "assert_string (Some (IString s)) = Return s"
| "assert_string _ = Panic ''interface conversion: not string''"

fun assert_int :: "iface option \<Rightarrow> int outcome" where
  "assert_int (Some (IInt i)) = Return i"
| "assert_int _ = Panic ''interface conversion: not int''"

fun assert_int64 :: "iface option \<Rightarrow> int outcome" where
  "assert_int64 (Some (IInt64 i)) = Return i"
| "assert_int64 _ = Panic ''interface conversion: not int64''"

lemma bind_outcome_Return_iff:
  "bind_outcome m f = Return y \<longleftrightarrow> (\<exists>x. m = Return x \<and> f x = Return y)"
  by (cases m) auto

lemma bind_outcome_Panic_iff:
  "bind_outcome m f = Panic e \<longleftrightarrow> m = Panic e \<or> (\<exists>x. m = Return x \<and> f x = Panic e)"
  by (cases m) auto

lemma int64_id: "- (2 ^ 63) \<le> x \<Longrightarrow> x < 2 ^ 63 \<Longrightarrow> int64 x = x"
  unfolding int64_def by (rule signed_take_bit_int_eq_self) simp_all

lemma int64_range: "- (2 ^ 63) \<le> int64 x \<and> int64 x < 2 ^ 63"
  unfolding int64_def
  using signed_take_bit_int_greater_eq_minus_exp [of 63 x] signed_take_bit_int_less_exp [of 63 x] by simp

section \<open>Lemmas on strings\<close>

lemma HasPrefix_iff [go_string]: "HasPrefix s p \<longleftrightarrow> prefix p s"
  by (auto simp: HasPrefix_def prefix_def) (metis append_take_drop_id)

lemma HasSuffix_iff [go_string]: "HasSuffix s p \<longleftrightarrow> suffix p s"
  by (auto simp: HasSuffix_def suffix_def) (metis append_take_drop_id)

lemma Split_not_Nil [simp]: "Split s c \<noteq> []"
  by (induction s c rule: Split.induct) (auto split: list.splits)

lemma Join_Cons: "ss \<noteq> [] \<Longrightarrow> Join (s # ss) sep = s @ sep @ Join ss sep"
  by (cases ss) auto

lemma Join_Split: "Join (Split s c) [c] = s"
proof (induction s c rule: Split.induct)
  case (2 x cs sep)
  obtain part parts where "Split cs sep = part # parts"
    by (meson Split_not_Nil list.exhaust)
  with 2 show ?case by (cases parts) (auto simp: Join_Cons)
qed simp

lemma Split_no_sep: "p \<in> set (Split s c) \<Longrightarrow> c \<notin> set p"
  by (induction s c arbitrary: p rule: Split.induct) (auto split: if_splits list.splits)

lemma Split_single: "c \<notin> set s \<Longrightarrow> Split s c = [s]"
  by (induction s) auto

lemma Split_append: "c \<notin> set s \<Longrightarrow> Split (s @ c # t) c = s # Split t c"
  by (induction s) auto

lemma Split_Join:
  assumes "ss \<noteq> []" and "\<forall>s\<in>set ss. c \<notin> set s"
  shows "Split (Join ss [c]) c = ss"
  using assms
proof (induction ss "[c]" rule: Join.induct)
  case (3 s t ss)
  then show ?case by (simp add: Split_append)
qed (auto simp: Split_single)

lemma length_ToLower [simp]: "length (ToLower s) = length s"
  by (simp add: ToLower_def)

lemma ToLower_append [simp]: "ToLower (s @ t) = ToLower s @ ToLower t"
  by (simp add: ToLower_def)

lemma lower_byte_idem [simp]: "lower_byte (lower_byte c) = lower_byte c"
  by (auto simp: lower_byte_def Let_def)

lemma ToLower_idem [simp]: "ToLower (ToLower s) = ToLower s"
  by (simp add: ToLower_def o_def)

lemma range_order_set: "range_order ord m \<Longrightarrow> set ord = fset (fmdom m)"
  by (metis fset_of_list.rep_eq range_order_def)

lemma range_order_exists: "\<exists>ord. range_order ord m"
proof -
  obtain ord where "set ord = fset (fmdom m)" "distinct ord"
    using finite_distinct_list [of "fset (fmdom m)"] by auto
  moreover from this have "fset_of_list ord = fmdom m"
    by (intro fset_eqI) (simp add: fset_of_list_elem)
  ultimately show ?thesis by (auto simp: range_order_def)
qed

lemma range_order_visits:
  assumes "range_order ord m" and "fmlookup m n = Some x"
  shows "x \<in> set (List.map_filter (fmlookup m) ord)"
  using assms range_order_set [OF assms(1)] by (force simp: List.map_filter_def fmdomI)

lemma range_order_values:
  "x \<in> set (List.map_filter (fmlookup m) ord) \<Longrightarrow> \<exists>n. fmlookup m n = Some x"
  by (auto simp: List.map_filter_def)

lemma range_order_first:
  assumes "range_order ord m" and "m \<noteq> fmempty"
  shows "\<exists>x xs. List.map_filter (fmlookup m) ord = x # xs"
proof -
  obtain n x where "fmlookup m n = Some x" using assms(2) by (metis fmap_ext fmempty_lookup not_Some_eq)
  from range_order_visits [OF assms(1) this] show ?thesis
    by (cases "List.map_filter (fmlookup m) ord") auto
qed

lemma map_len_fmupd:
  "map_len (fmupd k v m) = (if k |\<in>| fmdom m then map_len m else Suc (map_len m))"
  by (simp add: map_len_def fcard_finsert_if)

lemma map_len_fmempty [simp]: "map_len fmempty = 0"
  by (simp add: map_len_def)

lemma map_len_fmdrop_le: "map_len (fmdrop k m) \<le> map_len m"
  unfolding map_len_def by (rule fcard_mono) auto

lemma fmdom_empty_iff: "fmdom m = {||} \<longleftrightarrow> m = fmempty"
  by (metis fempty_iff fmap_ext fmdom_empty fmdom_notD)

lemma fmupd_not_fmempty [simp]: "fmupd k v m \<noteq> fmempty" "fmempty \<noteq> fmupd k v m"
  by (metis fmdom_empty fmdom_fmupd finsert_not_fempty)+

lemma map_len_0_iff: "map_len m = 0 \<longleftrightarrow> m = fmempty"
  by (simp add: map_len_def fmdom_empty_iff)

section \<open>Lemmas on space and lines\<close>

text \<open>Printable ASCII bytes but for the blank: no part of a white-space rune.\<close>

definition visible :: "char \<Rightarrow> bool" where
  "visible c \<longleftrightarrow> (let n = of_char c :: nat in 33 \<le> n \<and> n \<le> 126)"

lemma strip_front_None:
  "(\<And>p. p \<in> set ps \<Longrightarrow> p \<noteq> [] \<Longrightarrow> \<not> HasPrefix s p) \<Longrightarrow> strip_front ps s = s"
  by (subst strip_front.simps) (auto simp: find_None_iff split: option.splits simp del: find.simps
        dest: find_Some_iff [THEN iffD1])

lemma space_runes_hd: "p \<in> set space_runes \<Longrightarrow> p \<noteq> [] \<and> \<not> visible (hd p) \<and> \<not> visible (last p)"
  by (auto simp: space_runes_def visible_def)

lemma TrimLeftSpace_visible: "s = [] \<or> visible (hd s) \<Longrightarrow> TrimLeftSpace s = s"
  unfolding TrimLeftSpace_def
  by (rule strip_front_None) (auto simp: HasPrefix_iff prefix_def hd_append dest!: space_runes_hd)

lemma TrimRightSpace_visible:
  assumes "s = [] \<or> visible (last s)"
  shows "TrimRightSpace s = s"
proof -
  have "strip_front (map rev space_runes) (rev s) = rev s"
  proof (rule strip_front_None)
    fix p assume "p \<in> set (map rev space_runes)" "p \<noteq> []"
    then obtain q where "p = rev q" "q \<in> set space_runes" by auto
    with assms show "\<not> HasPrefix (rev s) p"
      by (auto simp: HasPrefix_iff suffix_to_prefix [symmetric] suffix_def dest!: space_runes_hd)
  qed
  then show ?thesis by (simp add: TrimRightSpace_def)
qed

lemma TrimSpace_visible:
  "s = [] \<or> visible (hd s) \<and> visible (last s) \<Longrightarrow> TrimSpace s = s"
  by (auto simp: TrimSpace_def TrimLeftSpace_visible TrimRightSpace_visible)

lemma length_Split: "p \<in> set (Split s c) \<Longrightarrow> length p \<le> length s"
  by (induction s c arbitrary: p rule: Split.induct) (auto split: if_splits list.splits intro: le_SucI)

lemma length_raw_lines: "p \<in> set (raw_lines s) \<Longrightarrow> length p \<le> length s"
  by (auto simp: raw_lines_def Let_def length_Split dest: in_set_butlastD split: if_splits)

lemma Scanner_short:
  assumes "length (content f) < MaxScanTokenSize"
  shows "Scanner f = (map dropCR (raw_lines (content f)), read_err f)"
proof -
  have all: "takeWhile (\<lambda>l. length l < MaxScanTokenSize) (raw_lines (content f)) = raw_lines (content f)"
    using assms by (auto simp: takeWhile_eq_all_conv dest: length_raw_lines)
  show ?thesis unfolding Scanner_def Let_def all by simp
qed

end
