(* ===== verification/Go_Net.thy ===== *)
theory Go_Net
  imports Go_Prelude
begin

text \<open>
  The parts of Go's package \<open>net\<close> that the sources use: joining and splitting of addresses, and the
  parser of IP addresses (\<open>net.ParseIP\<close>, which is \<open>netip.ParseAddr\<close> without zones). An address is a
  list of bytes, 4 or 16 of them. The loops of the parser are kept: the IPv4 loop reads a byte at
  a time, the IPv6 loop a group of hexadecimal digits at a time, with at most one ellipsis and an
  IPv4 address as its last two groups. \<open>isIP\<close> of \<open>utils.go\<close> is its client.
\<close>

section \<open>Host and port\<close>

fun index_byte :: "string \<Rightarrow> char \<Rightarrow> nat option" where
  "index_byte [] c = None"
| "index_byte (x # xs) c = (if x = c then Some 0 else map_option Suc (index_byte xs c))"

definition last_index_byte :: "string \<Rightarrow> char \<Rightarrow> nat option" where
  "last_index_byte s c = map_option (\<lambda>i. length s - 1 - i) (index_byte (rev s) c)"

definition JoinHostPort :: "string \<Rightarrow> string \<Rightarrow> string" where
  "JoinHostPort host port =
     (if CHR '':'' \<in> set host then ''['' @ host @ '']:'' @ port else host @ '':'' @ port)"

text \<open>\<open>SplitHostPort\<close>, with \<open>None\<close> for every error.\<close>

definition SplitHostPort :: "string \<Rightarrow> (string \<times> string) option" where
  "SplitHostPort s =
     (case last_index_byte s (CHR '':'') of
        None \<Rightarrow> None
      | Some i \<Rightarrow>
          let port = drop (Suc i) s in
          if s \<noteq> [] \<and> hd s = CHR ''['' then
            (case index_byte s (CHR '']'') of
               None \<Rightarrow> None
             | Some e \<Rightarrow>
                 if e + 1 \<noteq> i then None
                 else if CHR ''['' \<in> set (drop 1 s) \<or> CHR '']'' \<in> set (drop (e + 1) s) then None
                 else Some (take (e - 1) (drop 1 s), port))
          else
            let host = take i s in
            if CHR '':'' \<in> set host \<or> CHR ''['' \<in> set s \<or> CHR '']'' \<in> set s then None
            else Some (host, port))"

section \<open>IP addresses\<close>

type_synonym byte = "8 word"
type_synonym ip = "byte list"

definition digit_val :: "char \<Rightarrow> nat option" where
  "digit_val c = (let n = of_char c :: nat in if 48 \<le> n \<and> n \<le> 57 then Some (n - 48) else None)"

definition hex_val :: "char \<Rightarrow> nat option" where
  "hex_val c =
     (let n = of_char c :: nat in
      if 48 \<le> n \<and> n \<le> 57 then Some (n - 48)
      else if 97 \<le> n \<and> n \<le> 102 then Some (n - 87)
      else if 65 \<le> n \<and> n \<le> 70 then Some (n - 55)
      else None)"

text \<open>\<open>parseIPv4Fields\<close>: \<open>dot\<close> says that the byte before is a dot or that there is none.\<close>

fun ipv4_loop :: "string \<Rightarrow> bool \<Rightarrow> nat \<Rightarrow> nat \<Rightarrow> byte list \<Rightarrow> byte list option" where
  "ipv4_loop [] dot val digLen fs =
     (if length fs < 3 then None else Some (fs @ [of_nat val]))"
| "ipv4_loop (c # cs) dot val digLen fs =
     (case digit_val c of
        Some d \<Rightarrow>
          if digLen = 1 \<and> val = 0 then None
          else if val * 10 + d > 255 then None
          else ipv4_loop cs False (val * 10 + d) (digLen + 1) fs
      | None \<Rightarrow>
          if c = CHR ''.'' then
            if dot \<or> cs = [] then None
            else if length fs = 3 then None
            else ipv4_loop cs True 0 0 (fs @ [of_nat val])
          else None)"

definition parseIPv4Fields :: "string \<Rightarrow> byte list option" where
  "parseIPv4Fields s = ipv4_loop s True 0 0 []"

definition v4InV6Prefix :: "byte list" where
  "v4InV6Prefix = replicate 10 0 @ [0xFF, 0xFF]"

text \<open>A group of at most four hexadecimal digits: how many, their value, what is left.\<close>

fun hex_group :: "string \<Rightarrow> nat \<Rightarrow> nat \<Rightarrow> (nat \<times> nat \<times> string) option" where
  "hex_group [] off acc = Some (off, acc, [])"
| "hex_group (c # cs) off acc =
     (case hex_val c of
        None \<Rightarrow> Some (off, acc, c # cs)
      | Some d \<Rightarrow> if off > 3 then None else hex_group cs (off + 1) (acc * 16 + d))"

function ipv6_loop ::
  "string \<Rightarrow> byte list \<Rightarrow> nat option \<Rightarrow> (string \<times> byte list \<times> nat option) option" where
  "ipv6_loop s ip ell =
     (if length ip \<ge> 16 then Some (s, ip, ell)
      else case hex_group s 0 0 of
        None \<Rightarrow> None
      | Some (off, acc, rest) \<Rightarrow>
          if off = 0 then None
          else if rest \<noteq> [] \<and> hd rest = CHR ''.'' then
            if ell = None \<and> length ip \<noteq> 12 then None
            else if length ip + 4 > 16 then None
            else map_option (\<lambda>fs. ([], ip @ fs, ell)) (parseIPv4Fields s)
          else let ip' = ip @ [of_nat (acc div 256), of_nat acc] in
            if rest = [] then Some ([], ip', ell)
            else if hd rest \<noteq> CHR '':'' then None
            else if length rest = 1 then None
            else if hd (tl rest) = CHR '':'' then
              if ell \<noteq> None then None
              else if tl (tl rest) = [] then Some ([], ip', Some (length ip'))
              else ipv6_loop (tl (tl rest)) ip' (Some (length ip'))
            else ipv6_loop (tl rest) ip' ell)"
  by pat_completeness auto
termination
  by (relation "measure (\<lambda>(s, ip, ell). 16 - length ip)") auto

declare ipv6_loop.simps [simp del]

definition expand_ellipsis :: "(string \<times> byte list \<times> nat option) option \<Rightarrow> ip option" where
  "expand_ellipsis r =
     (case r of
        Some ([], ip, ell) \<Rightarrow>
          if length ip < 16 then
            map_option (\<lambda>e. take e ip @ replicate (16 - length ip) 0 @ drop e ip) ell
          else if ell \<noteq> None then None
          else Some ip
      | _ \<Rightarrow> None)"

text \<open>An address with a zone is refused by \<open>ParseIP\<close>, and so is an empty zone by \<open>parseIPv6\<close>.\<close>

definition parseIPv6 :: "string \<Rightarrow> ip option" where
  "parseIPv6 s =
     (if CHR ''%'' \<in> set s then None
      else if HasPrefix s ''::'' then
        if drop 2 s = [] then Some (replicate 16 0)
        else expand_ellipsis (ipv6_loop (drop 2 s) [] (Some 0))
      else expand_ellipsis (ipv6_loop s [] None))"

definition ParseIP :: "string \<Rightarrow> ip option" where
  "ParseIP s =
     (case find (\<lambda>c. c \<in> {CHR ''.'', CHR '':'', CHR ''%''}) s of
        Some c \<Rightarrow>
          if c = CHR ''.'' then map_option (\<lambda>fs. v4InV6Prefix @ fs) (parseIPv4Fields s)
          else if c = CHR '':'' then parseIPv6 s
          else None
      | None \<Rightarrow> None)"

definition To4 :: "ip \<Rightarrow> ip option" where
  "To4 ip =
     (if length ip = 4 then Some ip
      else if length ip = 16 \<and> take 12 ip = v4InV6Prefix then Some (drop 12 ip)
      else None)"

definition To16 :: "ip \<Rightarrow> ip option" where
  "To16 ip =
     (if length ip = 4 then Some (v4InV6Prefix @ ip)
      else if length ip = 16 then Some ip
      else None)"

definition isIP :: "string \<Rightarrow> bool" where
  "isIP s \<longleftrightarrow> ParseIP s \<noteq> None"

section \<open>Printing of addresses\<close>

definition hex_digit :: "nat \<Rightarrow> char" where
  "hex_digit n = (if n < 10 then char_of (48 + n) else char_of (87 + n))"

fun hex_of :: "nat \<Rightarrow> string" where
  "hex_of n = (if n < 16 then [hex_digit n] else hex_of (n div 16) @ [hex_digit (n mod 16)])"

declare hex_of.simps [simp del]

definition hex_byte :: "byte \<Rightarrow> string" where
  "hex_byte b = [hex_digit (unat b div 16), hex_digit (unat b mod 16)]"

fun ip_groups :: "ip \<Rightarrow> nat list" where
  "ip_groups (a # b # rest) = (unat a * 256 + unat b) # ip_groups rest"
| "ip_groups _ = []"

text \<open>The first of the longest runs of at least two zero groups, as its bounds.\<close>

definition zero_run :: "nat list \<Rightarrow> (nat \<times> nat) option" where
  "zero_run gs =
     fold (\<lambda>i best.
        let l = length (takeWhile (\<lambda>g. g = 0) (drop i gs)) in
        if 2 \<le> l \<and> (case best of None \<Rightarrow> True | Some (s, e) \<Rightarrow> e - s < l) then Some (i, i + l) else best)
       [0..<length gs] None"

definition IP_String :: "ip \<Rightarrow> string" where
  "IP_String ip =
     (if ip = [] then ''<nil>''
      else if length ip \<noteq> 4 \<and> length ip \<noteq> 16 then ''?'' @ concat (map hex_byte ip)
      else case To4 ip of
        Some p4 \<Rightarrow> Join (map (\<lambda>b. digits_of (unat b)) p4) ''.''
      | None \<Rightarrow>
          let gs = ip_groups ip in
          (case zero_run gs of
             None \<Rightarrow> Join (map hex_of gs) '':''
           | Some (s, e) \<Rightarrow>
               Join (map hex_of (take s gs)) '':'' @ ''::'' @ Join (map hex_of (drop e gs)) '':''))"

section \<open>Lemmas on host and port\<close>

lemma index_byte_append: "c \<notin> set a \<Longrightarrow> index_byte (a @ c # b) c = Some (length a)"
  by (induction a) auto

lemma index_byte_None: "index_byte s c = None \<longleftrightarrow> c \<notin> set s"
  by (induction s) auto

lemma last_index_byte_append:
  "c \<notin> set b \<Longrightarrow> last_index_byte (a @ c # b) c = Some (length a)"
  by (simp add: last_index_byte_def index_byte_append)

lemma last_index_byte_None: "last_index_byte s c = None \<longleftrightarrow> c \<notin> set s"
  by (simp add: last_index_byte_def index_byte_None)

text \<open>A text without colons and brackets, as a port is; a host without brackets.\<close>

definition plain :: "string \<Rightarrow> bool" where
  "plain s \<longleftrightarrow> CHR '':'' \<notin> set s \<and> CHR ''['' \<notin> set s \<and> CHR '']'' \<notin> set s"

definition bracket_free :: "string \<Rightarrow> bool" where
  "bracket_free s \<longleftrightarrow> CHR ''['' \<notin> set s \<and> CHR '']'' \<notin> set s"

lemma SplitHostPort_JoinHostPort:
  assumes "bracket_free host" and "plain port"
  shows "SplitHostPort (JoinHostPort host port) = Some (host, port)"
proof (cases "CHR '':'' \<in> set host")
  case True
  let ?s = "''['' @ host @ '']:'' @ port"
  have "last_index_byte (''['' @ host @ '']'' @ CHR '':'' # port) (CHR '':'') =
      Some (length (''['' @ host @ '']''))"
    using last_index_byte_append [of "CHR '':''" port "''['' @ host @ '']''"] assms
    by (simp add: plain_def)
  moreover have "index_byte ?s (CHR '']'') = Some (length (''['' @ host))"
    using index_byte_append [of "CHR '']''" "''['' @ host" "CHR '':'' # port"] assms
    by (simp add: bracket_free_def)
  ultimately show ?thesis
    using True assms by (simp add: JoinHostPort_def SplitHostPort_def plain_def bracket_free_def)
next
  case False
  have "last_index_byte (host @ CHR '':'' # port) (CHR '':'') = Some (length host)"
    using assms by (intro last_index_byte_append) (simp add: plain_def)
  with False assms show ?thesis
    by (cases host) (auto simp: JoinHostPort_def SplitHostPort_def plain_def bracket_free_def)
qed

section \<open>Lemmas on addresses\<close>

lemma ipv4_loop_length:
  "ipv4_loop s dot val digLen fs = Some r \<Longrightarrow> length fs \<le> 3 \<Longrightarrow> length r = 4"
  by (induction s dot val digLen fs rule: ipv4_loop.induct)
     (auto split: option.splits if_splits)

lemma parseIPv4Fields_length: "parseIPv4Fields s = Some r \<Longrightarrow> length r = 4"
  by (simp add: parseIPv4Fields_def ipv4_loop_length)

lemma ipv6_loop_bounds:
  "ipv6_loop s ip ell = Some (s', ip', ell') \<Longrightarrow> even (length ip) \<Longrightarrow> length ip \<le> 16 \<Longrightarrow>
     (\<And>e. ell = Some e \<Longrightarrow> e \<le> length ip) \<Longrightarrow>
     length ip' \<le> 16 \<and> (\<forall>e. ell' = Some e \<longrightarrow> e \<le> length ip')"
proof (induction s ip ell rule: ipv6_loop.induct)
  case (1 s ip ell)
  show ?case
  proof (cases "length ip \<ge> 16")
    case True
    with "1.prems" show ?thesis by (auto simp: ipv6_loop.simps [of s])
  next
    case False
    with "1.prems"(2) have room: "length ip + 2 \<le> 16" by presburger
    obtain off acc rest where g: "hex_group s 0 0 = Some (off, acc, rest)" and off: "off \<noteq> 0"
      using False "1.prems"(1) by (auto simp: ipv6_loop.simps [of s] split: option.splits if_splits)
    note step = ipv6_loop.simps [of s ip ell, unfolded g]
    consider (v4) "rest \<noteq> [] \<and> hd rest = CHR ''.''"
      | (last) "rest = []"
      | (ell) "rest \<noteq> []" "hd rest = CHR '':''" "length rest \<noteq> 1" "hd (tl rest) = CHR '':''" "ell = None"
      | (more) "rest \<noteq> []" "hd rest = CHR '':''" "length rest \<noteq> 1" "hd (tl rest) \<noteq> CHR '':''"
      using False off "1.prems"(1) by (auto simp: step Let_def split: if_splits)
    then show ?thesis
    proof cases
      case v4
      with False off "1.prems" show ?thesis
        by (auto simp: step dest!: parseIPv4Fields_length split: if_splits)
    next
      case last
      with False off "1.prems" room show ?thesis by (auto simp: step Let_def)
    next
      case ell
      then show ?thesis
        using False off "1.prems"(1) [unfolded step] "1.prems"(2-) room
          "1.IH"(1) [OF False g refl refl off]
        by (auto simp: Let_def split: if_splits)
    next
      case more
      then show ?thesis
        using False off "1.prems"(1) [unfolded step] "1.prems"(2-) room
          "1.IH"(2) [OF False g refl refl off]
        by (cases ell) (auto simp: Let_def split: if_splits)
    qed
  qed
qed

lemma length_v4InV6Prefix [simp]: "length v4InV6Prefix = 12"
  by (simp add: v4InV6Prefix_def)

lemma expand_ellipsis_length:
  assumes "expand_ellipsis (ipv6_loop s [] ell) = Some ip" and "ell = None \<or> ell = Some 0"
  shows "length ip = 16"
proof -
  obtain ip' ell' where loop: "ipv6_loop s [] ell = Some ([], ip', ell')"
    using assms(1) by (auto simp: expand_ellipsis_def split: option.splits prod.splits list.splits)
  with ipv6_loop_bounds [OF loop] assms(2)
  have "length ip' \<le> 16 \<and> (\<forall>e. ell' = Some e \<longrightarrow> e \<le> length ip')" by auto
  with assms(1) loop show ?thesis by (auto simp: expand_ellipsis_def split: if_splits)
qed

lemma parseIPv6_length: "parseIPv6 s = Some ip \<Longrightarrow> length ip = 16"
  by (auto simp: parseIPv6_def expand_ellipsis_length split: if_splits)

lemma ParseIP_length: "ParseIP s = Some ip \<Longrightarrow> length ip = 16"
  by (auto simp: ParseIP_def parseIPv6_length parseIPv4Fields_length
      split: option.splits if_splits)

lemma To16_ParseIP: "ParseIP s = Some ip \<Longrightarrow> To16 ip = Some ip"
  by (auto simp: To16_def dest: ParseIP_length)

lemma To4_length: "To4 ip = Some ip' \<Longrightarrow> length ip' = 4"
  by (auto simp: To4_def split: if_splits)

lemma To4_To4: "To4 ip = Some ip' \<Longrightarrow> To4 ip' = Some ip'"
  using To4_length [of ip ip'] by (simp add: To4_def [of ip'])

end
