(* ===== verification/Suffix_Tree.thy ===== *)
theory Suffix_Tree
  imports Go_Prelude
begin

text \<open>
  The suffix tree of \<open>sfx_tree.go\<close>, which the resolver searches for the nameservers of a domain.

  A node is the struct \<open>suffixTreeNode\<close>: its key, its value (the empty string for "no value") and
  the map of its children. No node is shared, so the mutation through pointers is modelled by
  rebuilding the path that was walked. The loops of the source run over the labels from the last
  to the first; here each is a recursion over the reversed list of labels. \<open>Delete\<close> keeps the
  source's two phases: the walk down, which records the path, and the clean-up on the way back,
  which stops at the first node that is still in use.

  What a tree stores is the map \<open>rule\<close> from label lists to non-empty values. \<open>InsertDomain\<close> and
  \<open>Delete\<close> refine the update and the removal of that map (locale \<open>domain_rules\<close>), and
  \<open>SearchDomain\<close> is the longest match over it, except at inner nodes without a value.
\<close>

section \<open>The model\<close>

datatype suffixTreeNode =
  Node (node_key: string) (node_val: string) (node_children: "(string, suffixTreeNode) fmap")

definition newSuffixTreeRoot :: suffixTreeNode where
  "newSuffixTreeRoot = Node [] [] fmempty"

definition set_val :: "string \<Rightarrow> suffixTreeNode \<Rightarrow> suffixTreeNode" where
  "set_val v n = Node (node_key n) v (node_children n)"

definition set_child :: "string \<Rightarrow> suffixTreeNode \<Rightarrow> suffixTreeNode \<Rightarrow> suffixTreeNode" where
  "set_child k c n = Node (node_key n) (node_val n) (fmupd k c (node_children n))"

definition drop_child :: "string \<Rightarrow> suffixTreeNode \<Rightarrow> suffixTreeNode" where
  "drop_child k n = Node (node_key n) (node_val n) (fmdrop k (node_children n))"

definition ensureSubTree :: "suffixTreeNode \<Rightarrow> string \<Rightarrow> suffixTreeNode" where
  "ensureSubTree n k =
     (case fmlookup (node_children n) k of
        None \<Rightarrow> set_child k (Node k [] fmempty) n
      | Some _ \<Rightarrow> n)"

fun insert_loop :: "string list \<Rightarrow> string \<Rightarrow> suffixTreeNode \<Rightarrow> suffixTreeNode" where
  "insert_loop [] v n = set_val v n"
| "insert_loop (k # ks) v n =
     (let n' = ensureSubTree n k in
      case fmlookup (node_children n') k of
        None \<Rightarrow> n'
      | Some c \<Rightarrow> set_child k (insert_loop ks v c) n')"

definition InsertDomain :: "suffixTreeNode \<Rightarrow> string list \<Rightarrow> string \<Rightarrow> suffixTreeNode" where
  "InsertDomain n keys v = insert_loop (rev keys) v n"

fun search_loop :: "string list \<Rightarrow> string \<Rightarrow> suffixTreeNode \<Rightarrow> string \<times> bool" where
  "search_loop [] best n = (node_val n, node_val n \<noteq> [])"
| "search_loop (k # ks) best n =
     (case fmlookup (node_children n) k of
        Some c \<Rightarrow> search_loop ks (if node_val c \<noteq> [] then node_val c else best) c
      | None \<Rightarrow> (best, best \<noteq> []))"

definition SearchDomain :: "suffixTreeNode \<Rightarrow> string list \<Rightarrow> string \<times> bool" where
  "SearchDomain n keys = search_loop (rev keys) [] n"

text \<open>The path of \<open>Delete\<close>, the deepest parent first, each with the key of the child taken.\<close>

type_synonym tree_path = "(suffixTreeNode \<times> string) list"

fun delete_walk ::
  "string list \<Rightarrow> suffixTreeNode \<Rightarrow> tree_path \<Rightarrow> (suffixTreeNode \<times> tree_path) option" where
  "delete_walk [] n path = Some (n, path)"
| "delete_walk (k # ks) n path =
     (case fmlookup (node_children n) k of
        None \<Rightarrow> None
      | Some c \<Rightarrow> delete_walk ks c ((n, k) # path))"

definition unused :: "suffixTreeNode \<Rightarrow> bool" where
  "unused n \<longleftrightarrow> node_val n = [] \<and> map_len (node_children n) = 0"

fun rebuild :: "tree_path \<Rightarrow> suffixTreeNode \<Rightarrow> suffixTreeNode" where
  "rebuild [] n = n"
| "rebuild ((parent, k) # path) n = rebuild path (set_child k n parent)"

fun delete_cleanup :: "tree_path \<Rightarrow> suffixTreeNode \<Rightarrow> suffixTreeNode" where
  "delete_cleanup [] n = n"
| "delete_cleanup ((parent, k) # path) n =
     (if unused n then delete_cleanup path (drop_child k parent)
      else rebuild ((parent, k) # path) n)"

definition Delete :: "suffixTreeNode \<Rightarrow> string list \<Rightarrow> suffixTreeNode" where
  "Delete n keys =
     (case delete_walk (rev keys) n [] of
        None \<Rightarrow> n
      | Some (c, path) \<Rightarrow> delete_cleanup path (set_val [] c))"

section \<open>The specification\<close>

fun node_at :: "suffixTreeNode \<Rightarrow> string list \<Rightarrow> suffixTreeNode option" where
  "node_at n [] = Some n"
| "node_at n (k # ks) =
     (case fmlookup (node_children n) k of None \<Rightarrow> None | Some c \<Rightarrow> node_at c ks)"

definition path_rule :: "suffixTreeNode \<Rightarrow> string list \<Rightarrow> string option" where
  "path_rule n ks =
     (case node_at n ks of
        None \<Rightarrow> None
      | Some c \<Rightarrow> if node_val c = [] then None else Some (node_val c))"

definition rule :: "suffixTreeNode \<Rightarrow> string list \<Rightarrow> string option" where
  "rule n keys = path_rule n (rev keys)"

text \<open>The most specific rule for a domain: that of its longest suffix that has one.\<close>

fun longest_rule :: "(string list \<Rightarrow> string option) \<Rightarrow> string list \<Rightarrow> string option" where
  "longest_rule m [] = None"
| "longest_rule m (k # ks) = (case m (k # ks) of Some v \<Rightarrow> Some v | None \<Rightarrow> longest_rule m ks)"

definition inner_domain :: "(string list \<Rightarrow> string option) \<Rightarrow> string list \<Rightarrow> bool" where
  "inner_domain m keys \<longleftrightarrow> keys \<noteq> [] \<and> m keys = None \<and> (\<exists>pre. m (pre @ keys) \<noteq> None)"

text \<open>Well-formed trees: children carry the key they are stored under, and no leaf but the
  root is without a value.\<close>

definition keys_ok :: "suffixTreeNode \<Rightarrow> bool" where
  "keys_ok t \<longleftrightarrow> (\<forall>ks k c. node_at t (ks @ [k]) = Some c \<longrightarrow> node_key c = k)"

definition no_dead_leaf :: "suffixTreeNode \<Rightarrow> bool" where
  "no_dead_leaf t \<longleftrightarrow> (\<forall>ks c. ks \<noteq> [] \<longrightarrow> node_at t ks = Some c \<longrightarrow> \<not> unused c)"

definition tree_ok :: "suffixTreeNode \<Rightarrow> bool" where
  "tree_ok t \<longleftrightarrow> keys_ok t \<and> no_dead_leaf t"

text \<open>A recursive deletion, the reference for the two loops of \<open>Delete\<close>.\<close>

fun delete_rec :: "string list \<Rightarrow> suffixTreeNode \<Rightarrow> suffixTreeNode option" where
  "delete_rec [] n = Some (set_val [] n)"
| "delete_rec (k # ks) n =
     (case fmlookup (node_children n) k of
        None \<Rightarrow> None
      | Some c \<Rightarrow>
          (case delete_rec ks c of
             None \<Rightarrow> None
           | Some c' \<Rightarrow> Some (if unused c' then drop_child k n else set_child k c' n)))"

datatype rule_op = Insert_op "string list" string | Delete_op "string list"

fun spec_op :: "rule_op \<Rightarrow> (string list \<Rightarrow> string option) \<Rightarrow> (string list \<Rightarrow> string option)" where
  "spec_op (Insert_op ks v) m = m(ks := (if v = [] then None else Some v))"
| "spec_op (Delete_op ks) m = m(ks := None)"

fun tree_op :: "rule_op \<Rightarrow> suffixTreeNode \<Rightarrow> suffixTreeNode" where
  "tree_op (Insert_op ks v) t = InsertDomain t ks v"
| "tree_op (Delete_op ks) t = Delete t ks"

fun value_op :: "rule_op \<Rightarrow> bool" where
  "value_op (Insert_op ks v) \<longleftrightarrow> v \<noteq> []"
| "value_op (Delete_op ks) \<longleftrightarrow> True"

section \<open>Basic lemmas\<close>

named_theorems tree_simps "field access after a change of a node"

lemma node_val_set [simp, tree_simps]:
  "node_val (set_val v n) = v" "node_val (set_child k c n) = node_val n"
  "node_val (drop_child k n) = node_val n" "node_val (ensureSubTree n k) = node_val n"
  by (auto simp: set_val_def set_child_def drop_child_def ensureSubTree_def split: option.splits)

lemma node_key_set [simp, tree_simps]:
  "node_key (set_val v n) = node_key n" "node_key (set_child k c n) = node_key n"
  "node_key (drop_child k n) = node_key n" "node_key (ensureSubTree n k) = node_key n"
  by (auto simp: set_val_def set_child_def drop_child_def ensureSubTree_def split: option.splits)

lemma node_children_set [simp, tree_simps]:
  "node_children (set_val v n) = node_children n"
  "node_children (set_child k c n) = fmupd k c (node_children n)"
  "node_children (drop_child k n) = fmdrop k (node_children n)"
  by (auto simp: set_val_def set_child_def drop_child_def)

lemma ensureSubTree_lookup:
  "fmlookup (node_children (ensureSubTree n k)) k' =
     (if k' = k \<and> fmlookup (node_children n) k = None then Some (Node k [] fmempty)
      else fmlookup (node_children n) k')"
  by (auto simp: ensureSubTree_def split: option.splits)

lemma set_child_ensure:
  "set_child k c (ensureSubTree n k) = set_child k c n"
  by (auto simp: ensureSubTree_def set_child_def fmap_ext split: option.splits intro!: fmap_ext)

lemma insert_loop_Cons:
  "insert_loop (k # ks) v n =
     set_child k (insert_loop ks v (case fmlookup (node_children n) k of
        None \<Rightarrow> Node k [] fmempty | Some c \<Rightarrow> c)) n"
  by (auto simp: Let_def ensureSubTree_lookup set_child_ensure split: option.splits)

declare insert_loop.simps(2) [simp del]

lemma insert_loop_val: "node_val (insert_loop ks v n) = (if ks = [] then v else node_val n)"
  by (cases ks) (auto simp: insert_loop_Cons)

lemma insert_loop_key [simp]: "node_key (insert_loop ks v n) = node_key n"
  by (cases ks) (auto simp: insert_loop_Cons)

lemma unused_set_child [simp]: "\<not> unused (set_child k c n)"
  by (simp add: unused_def map_len_0_iff)

lemma rebuild_not_unused: "\<not> unused n \<Longrightarrow> rebuild path n = delete_cleanup path n"
  by (cases path) auto

lemma path_rule_Nil: "path_rule n [] = (if node_val n = [] then None else Some (node_val n))"
  by (simp add: path_rule_def)

lemma path_rule_Cons:
  "path_rule n (k # ks) =
     (case fmlookup (node_children n) k of None \<Rightarrow> None | Some c \<Rightarrow> path_rule c ks)"
  by (simp add: path_rule_def split: option.splits)

lemma path_rule_leaf [simp]: "path_rule (Node k [] fmempty) ks = None"
  by (cases ks) (auto simp: path_rule_Nil path_rule_Cons)

lemma node_at_append:
  "node_at n (ks @ ks') = (case node_at n ks of None \<Rightarrow> None | Some c \<Rightarrow> node_at c ks')"
  by (induction n ks rule: node_at.induct) (auto split: option.splits)

section \<open>Insertion\<close>

lemma path_rule_insert:
  "path_rule (insert_loop ks v n) =
     (path_rule n)(ks := (if v = [] then None else Some v))"
proof (induction ks arbitrary: n)
  case Nil
  show ?case
  proof
    fix ks' show "path_rule (insert_loop [] v n) ks' =
        ((path_rule n)([] := (if v = [] then None else Some v))) ks'"
      by (cases ks') (auto simp: path_rule_Nil path_rule_Cons)
  qed
next
  case (Cons k ks)
  show ?case
  proof
    fix ks' show "path_rule (insert_loop (k # ks) v n) ks' =
        ((path_rule n)(k # ks := (if v = [] then None else Some v))) ks'"
      by (cases ks')
         (auto simp: path_rule_Nil path_rule_Cons insert_loop_Cons Cons.IH split: option.splits)
  qed
qed

lemma node_at_insert:
  "node_at (insert_loop ks v n) ks' = Some c \<Longrightarrow>
     (\<exists>c'. node_at n ks' = Some c' \<and> node_key c' = node_key c) \<or>
     (ks' \<noteq> [] \<and> node_key c = last ks')"
proof (induction ks' arbitrary: ks n)
  case (Cons k' ks')
  show ?case
  proof (cases ks)
    case (Cons k ks'')
    let ?d = "case fmlookup (node_children n) k of None \<Rightarrow> Node k [] fmempty | Some c \<Rightarrow> c"
    show ?thesis
    proof (cases "k' = k")
      case True
      with Cons Cons.prems have at: "node_at (insert_loop ks'' v ?d) ks' = Some c"
        by (simp add: insert_loop_Cons)
      from Cons.IH [OF at] True show ?thesis
        by (cases ks') (auto split: option.splits)
    next
      case False
      with Cons Cons.prems show ?thesis by (auto simp: insert_loop_Cons)
    qed
  qed (use Cons.prems in auto)
qed auto

lemma keys_ok_insert: "keys_ok t \<Longrightarrow> keys_ok (InsertDomain t keys v)"
  unfolding keys_ok_def InsertDomain_def by (fastforce dest: node_at_insert)

lemma insert_loop_used: "v \<noteq> [] \<Longrightarrow> \<not> unused (insert_loop ks v n)"
  by (cases ks) (auto simp: insert_loop_Cons unused_def [of "set_val v n"])

lemma unused_leaf [simp]: "unused (Node k [] fmempty)"
  by (simp add: unused_def)

lemma no_dead_leaf_Node:
  "no_dead_leaf t \<longleftrightarrow>
     (\<forall>k c. fmlookup (node_children t) k = Some c \<longrightarrow> \<not> unused c \<and> no_dead_leaf c)"
  (is "_ \<longleftrightarrow> ?rhs")
proof
  assume t: "no_dead_leaf t"
  show ?rhs
  proof (intro allI impI)
    fix k c assume c: "fmlookup (node_children t) k = Some c"
    have "\<not> unused d" if "node_at c ks = Some d" for ks d
      using t that c unfolding no_dead_leaf_def by (elim allE [where x = "k # ks"]) auto
    from this [of "[]"] this show "\<not> unused c \<and> no_dead_leaf c"
      by (auto simp: no_dead_leaf_def)
  qed
next
  assume r: ?rhs
  have "\<not> unused c" if "node_at t (k # ks) = Some c" for k ks c
  proof -
    from that obtain d where "fmlookup (node_children t) k = Some d" "node_at d ks = Some c"
      by (auto split: option.splits)
    with r show ?thesis by (cases "ks = []") (auto simp: no_dead_leaf_def)
  qed
  then show "no_dead_leaf t"
    by (auto simp: no_dead_leaf_def neq_Nil_conv)
qed

lemma no_dead_leaf_set_val [simp]: "no_dead_leaf (set_val v n) \<longleftrightarrow> no_dead_leaf n"
  by (simp add: no_dead_leaf_Node [of n] no_dead_leaf_Node [of "set_val v n"])

lemma no_dead_leaf_set_child:
  "no_dead_leaf n \<Longrightarrow> no_dead_leaf c \<Longrightarrow> \<not> unused c \<Longrightarrow> no_dead_leaf (set_child k c n)"
  by (simp add: no_dead_leaf_Node [of n] no_dead_leaf_Node [of "set_child k c n"])

lemma no_dead_leaf_drop_child: "no_dead_leaf n \<Longrightarrow> no_dead_leaf (drop_child k n)"
  by (simp add: no_dead_leaf_Node [of n] no_dead_leaf_Node [of "drop_child k n"])

lemma no_dead_leaf_leaf [simp]: "no_dead_leaf (Node k v fmempty)"
  by (subst no_dead_leaf_Node) simp

lemma no_dead_leaf_child:
  "no_dead_leaf n \<Longrightarrow> fmlookup (node_children n) k = Some c \<Longrightarrow> no_dead_leaf c"
  by (simp add: no_dead_leaf_Node [of n])

lemmas no_dead_leaf_intros =
  no_dead_leaf_set_child no_dead_leaf_drop_child no_dead_leaf_child

lemma no_dead_leaf_insert: "v \<noteq> [] \<Longrightarrow> no_dead_leaf n \<Longrightarrow> no_dead_leaf (insert_loop ks v n)"
  by (induction ks arbitrary: n)
     (auto simp: insert_loop_Cons insert_loop_used intro!: no_dead_leaf_set_child
        intro: no_dead_leaf_child split: option.splits)

section \<open>Deletion\<close>

lemma delete_walk_rec:
  "delete_walk ks n path = None \<longleftrightarrow> delete_rec ks n = None"
  "delete_walk ks n path = Some (c, path') \<Longrightarrow>
     \<exists>n'. delete_rec ks n = Some n' \<and> delete_cleanup path' (set_val [] c) = delete_cleanup path n'"
proof (induction ks arbitrary: n path)
  case (Cons k ks)
  {
    case 1
    then show ?case using Cons.IH(1) by (auto split: option.splits)
  next
    case 2
    then obtain d where d: "fmlookup (node_children n) k = Some d"
      and w: "delete_walk ks d ((n, k) # path) = Some (c, path')"
      by (auto split: option.splits)
    from Cons.IH(2) [OF w] obtain d' where "delete_rec ks d = Some d'"
      and "delete_cleanup path' (set_val [] c) = delete_cleanup ((n, k) # path) d'" by blast
    with d show ?case by (auto simp: rebuild_not_unused)
  }
qed auto

lemma Delete_rec: "Delete n keys = (case delete_rec (rev keys) n of None \<Rightarrow> n | Some n' \<Rightarrow> n')"
proof (cases "delete_walk (rev keys) n []")
  case None
  then show ?thesis using delete_walk_rec(1) [of "rev keys" n "[]"] by (simp add: Delete_def)
next
  case (Some cp)
  obtain c path where "cp = (c, path)" by (cases cp)
  with Some delete_walk_rec(2) [of "rev keys" n "[]" c path] show ?thesis
    by (auto simp: Delete_def)
qed

lemma unused_path_rule: "unused n \<Longrightarrow> path_rule n ks = None"
  by (cases ks) (auto simp: unused_def map_len_0_iff path_rule_Nil path_rule_Cons)

lemma path_rule_delete:
  "delete_rec ks n = Some n' \<Longrightarrow> path_rule n' = (path_rule n)(ks := None)"
proof (induction ks arbitrary: n n')
  case Nil
  show ?case
  proof
    fix ks' show "path_rule n' ks' = ((path_rule n)([] := None)) ks'"
      using Nil by (cases ks') (auto simp: path_rule_Nil path_rule_Cons)
  qed
next
  case (Cons k ks)
  then obtain c c' where c: "fmlookup (node_children n) k = Some c" "delete_rec ks c = Some c'"
    and n': "n' = (if unused c' then drop_child k n else set_child k c' n)"
    by (auto split: option.splits)
  from Cons.IH [OF c(2)] have c': "path_rule c' = (path_rule c)(ks := None)" .
  show ?case
  proof
    fix ks' show "path_rule n' ks' = ((path_rule n)(k # ks := None)) ks'"
    proof (cases ks')
      case (Cons k'' ks'')
      have "((path_rule c)(ks := None)) ks'' = None" if "unused c'"
        using unused_path_rule [OF that] c' by metis
      with c c' n' Cons show ?thesis
        by (auto simp: path_rule_Cons split: option.splits if_splits)
    qed (use n' in \<open>auto simp: path_rule_Nil\<close>)
  qed
qed

lemma delete_rec_None: "delete_rec ks n = None \<Longrightarrow> path_rule n ks = None"
  by (induction ks arbitrary: n) (auto simp: path_rule_Cons split: option.splits)

lemma delete_rec_key: "delete_rec ks n = Some n' \<Longrightarrow> node_key n' = node_key n"
  by (cases ks) (auto split: option.splits if_splits)

lemma no_dead_leaf_delete: "delete_rec ks n = Some n' \<Longrightarrow> no_dead_leaf n \<Longrightarrow> no_dead_leaf n'"
proof (induction ks arbitrary: n n')
  case (Cons k ks)
  then obtain c c' where c: "fmlookup (node_children n) k = Some c" "delete_rec ks c = Some c'"
    and n': "n' = (if unused c' then drop_child k n else set_child k c' n)"
    by (auto split: option.splits)
  with Cons have "no_dead_leaf c'" by (blast intro: no_dead_leaf_child)
  with Cons.prems(2) n' show ?case by (simp add: no_dead_leaf_intros)
qed auto

lemma node_at_delete:
  "delete_rec ks n = Some n' \<Longrightarrow> node_at n' ks' = Some c \<Longrightarrow>
     \<exists>c'. node_at n ks' = Some c' \<and> node_key c' = node_key c"
proof (induction ks' arbitrary: ks n n')
  case Nil
  then show ?case using delete_rec_key by fastforce
next
  case (Cons k' ks')
  show ?case
  proof (cases ks)
    case Nil
    with Cons.prems show ?thesis by auto
  next
    case (Cons k ks'')
    with Cons.prems Cons.IH show ?thesis
      by (fastforce split: option.splits if_splits)
  qed
qed

section \<open>Search\<close>

lemma longest_rule_snoc:
  "longest_rule m (ks @ [k]) =
     (case longest_rule (\<lambda>ks'. m (ks' @ [k])) ks of Some v \<Rightarrow> Some v | None \<Rightarrow> m [k])"
  by (induction ks) (auto split: option.splits)

lemma longest_rule_None: "(\<forall>ks'. ks' \<noteq> [] \<longrightarrow> m ks' = None) \<Longrightarrow> longest_rule m ks = None"
  by (induction ks) auto

lemma longest_rule_nonempty: "longest_rule (rule t) keys = Some v \<Longrightarrow> v \<noteq> []"
  by (induction keys) (auto simp: rule_def path_rule_def split: option.splits if_splits)

lemma rule_snoc:
  "rule n (ks @ [k]) = (case fmlookup (node_children n) k of None \<Rightarrow> None | Some c \<Rightarrow> rule c ks)"
  by (simp add: rule_def path_rule_Cons split: option.splits)

lemma search_loop_node_at:
  "node_at n ks = Some c \<Longrightarrow> search_loop ks best n = (node_val c, node_val c \<noteq> [])"
  by (induction ks best n rule: search_loop.induct) (auto split: option.splits)

lemma search_loop_longest:
  "node_at n (rev keys) = None \<Longrightarrow>
     search_loop (rev keys) best n =
       (let v = (case longest_rule (rule n) keys of Some v \<Rightarrow> v | None \<Rightarrow> best) in (v, v \<noteq> []))"
proof (induction keys arbitrary: n best rule: rev_induct)
  case (snoc k ks)
  show ?case
  proof (cases "fmlookup (node_children n) k")
    case None
    then show ?thesis
      by (simp add: longest_rule_snoc rule_snoc longest_rule_None rule_snoc [of n "[]", simplified])
  next
    case (Some c)
    with snoc show ?thesis
      by (simp add: longest_rule_snoc rule_snoc rule_snoc [of n "[]", simplified] Let_def
            rule_def [of c "[]"] path_rule_Nil split: option.splits)
  qed
qed simp

lemma SearchDomain_longest:
  "node_at t (rev keys) = None \<Longrightarrow>
     SearchDomain t keys =
       (case longest_rule (rule t) keys of Some v \<Rightarrow> (v, True) | None \<Rightarrow> ([], False))"
  by (simp add: SearchDomain_def search_loop_longest longest_rule_nonempty Let_def
        split: option.splits)

lemma used_has_rule: "no_dead_leaf n \<Longrightarrow> \<not> unused n \<Longrightarrow> \<exists>ks. path_rule n ks \<noteq> None"
proof (induction n)
  case (Node key val children)
  show ?case
  proof (cases "val = []")
    case True
    with Node.prems obtain k c where c: "fmlookup children k = Some c"
      by (auto simp: unused_def map_len_0_iff) (metis fmap_ext fmempty_lookup not_Some_eq)
    with Node.prems have "no_dead_leaf c \<and> \<not> unused c"
      by (auto simp: no_dead_leaf_Node [of "Node key val children"])
    with Node.IH fmran'I [OF c] obtain ks where "path_rule c ks \<noteq> None" by blast
    with c have "path_rule (Node key val children) (k # ks) \<noteq> None"
      by (simp add: path_rule_Cons)
    then show ?thesis by blast
  qed (auto simp: path_rule_def intro: exI [of _ "[]"])
qed

lemma path_rule_append:
  "path_rule n (ks @ ks') = (case node_at n ks of None \<Rightarrow> None | Some c \<Rightarrow> path_rule c ks')"
  by (simp add: path_rule_def node_at_append split: option.splits)

lemma node_at_iff_rule:
  assumes "no_dead_leaf t" and "keys \<noteq> []"
  shows "node_at t (rev keys) \<noteq> None \<longleftrightarrow> (\<exists>pre. rule t (pre @ keys) \<noteq> None)"
proof
  assume "node_at t (rev keys) \<noteq> None"
  then obtain c where c: "node_at t (rev keys) = Some c" by blast
  with assms have "\<not> unused c" by (auto simp: no_dead_leaf_def)
  moreover have "no_dead_leaf c"
    using assms(1) c unfolding no_dead_leaf_def
    by (metis append_is_Nil_conv node_at_append option.simps(5))
  ultimately obtain ks where "path_rule c ks \<noteq> None" using used_has_rule by blast
  with c have "rule t (rev ks @ keys) \<noteq> None" by (simp add: rule_def path_rule_append)
  then show "\<exists>pre. rule t (pre @ keys) \<noteq> None" by blast
next
  assume "\<exists>pre. rule t (pre @ keys) \<noteq> None"
  then show "node_at t (rev keys) \<noteq> None"
    by (auto simp: rule_def path_rule_append split: option.splits)
qed

section \<open>The interface of a store of domain rules\<close>

text \<open>
  What a client of the tree may rely on: every operation is the operation on the map of rules,
  and keeps the store well-formed. The resolver is such a client.
\<close>

locale domain_rules =
  fixes new :: 't
    and insert_rule :: "'t \<Rightarrow> string list \<Rightarrow> string \<Rightarrow> 't"
    and delete_rule :: "'t \<Rightarrow> string list \<Rightarrow> 't"
    and rules :: "'t \<Rightarrow> string list \<Rightarrow> string option"
    and ok :: "'t \<Rightarrow> bool"
  assumes rules_new: "rules new = Map.empty"
    and rules_insert: "rules (insert_rule t ks v) = (rules t)(ks := (if v = [] then None else Some v))"
    and rules_delete: "rules (delete_rule t ks) = (rules t)(ks := None)"
    and ok_new: "ok new"
    and ok_insert: "ok t \<Longrightarrow> v \<noteq> [] \<Longrightarrow> ok (insert_rule t ks v)"
    and ok_delete: "ok t \<Longrightarrow> ok (delete_rule t ks)"
begin

lemma rules_run:
  "rules (fold (\<lambda>op t. case op of Insert_op ks v \<Rightarrow> insert_rule t ks v
                             | Delete_op ks \<Rightarrow> delete_rule t ks) ops t) =
     fold spec_op ops (rules t)"
  by (induction ops arbitrary: t) (auto simp: rules_insert rules_delete split: rule_op.splits)

lemma ok_run:
  "ok t \<Longrightarrow> list_all value_op ops \<Longrightarrow>
     ok (fold (\<lambda>op t. case op of Insert_op ks v \<Rightarrow> insert_rule t ks v
                             | Delete_op ks \<Rightarrow> delete_rule t ks) ops t)"
  by (induction ops arbitrary: t) (auto simp: ok_insert ok_delete split: rule_op.splits)

lemma insert_then_delete: "rules t ks = None \<Longrightarrow> rules (delete_rule (insert_rule t ks v) ks) = rules t"
  by (auto simp: rules_insert rules_delete)

lemma insert_other: "ks' \<noteq> ks \<Longrightarrow> rules (insert_rule t ks v) ks' = rules t ks'"
  by (simp add: rules_insert)

end

lemma keys_ok_delete: "keys_ok t \<Longrightarrow> keys_ok (Delete t keys)"
  unfolding keys_ok_def Delete_rec by (fastforce dest: node_at_delete split: option.splits)

lemma no_dead_leaf_Delete: "no_dead_leaf t \<Longrightarrow> no_dead_leaf (Delete t keys)"
  by (auto simp: Delete_rec intro: no_dead_leaf_delete split: option.splits)

lemma rule_Delete: "rule (Delete t keys) = (rule t)(keys := None)"
  by (rule ext) (auto simp: rule_def Delete_rec path_rule_delete delete_rec_None split: option.splits)

lemma rule_InsertDomain:
  "rule (InsertDomain t keys v) = (rule t)(keys := (if v = [] then None else Some v))"
  by (rule ext) (auto simp: rule_def InsertDomain_def path_rule_insert)

lemma keys_ok_new: "keys_ok newSuffixTreeRoot"
  unfolding keys_ok_def newSuffixTreeRoot_def
  by (auto simp: node_at_append neq_Nil_conv split: option.splits) (metis fmempty_lookup
      neq_Nil_conv node_at.simps option.simps(4) option.distinct(1) option.inject suffixTreeNode.sel(3))

interpretation tree: domain_rules newSuffixTreeRoot InsertDomain Delete rule tree_ok
proof unfold_locales
  show "rule newSuffixTreeRoot = Map.empty"
    by (rule ext) (simp add: rule_def newSuffixTreeRoot_def)
  show "tree_ok newSuffixTreeRoot"
    using keys_ok_new by (simp add: tree_ok_def newSuffixTreeRoot_def)
  show "tree_ok (InsertDomain t ks v)" if "tree_ok t" "v \<noteq> []" for t ks v
    using that by (simp add: tree_ok_def keys_ok_insert InsertDomain_def no_dead_leaf_insert
        keys_ok_insert [unfolded InsertDomain_def])
  show "tree_ok (Delete t ks)" if "tree_ok t" for t ks
    using that by (simp add: tree_ok_def keys_ok_delete no_dead_leaf_Delete)
qed (fact rule_InsertDomain rule_Delete)+

lemma tree_op_case:
  "tree_op = (\<lambda>op t. case op of Insert_op ks v \<Rightarrow> InsertDomain t ks v | Delete_op ks \<Rightarrow> Delete t ks)"
  by (intro ext) (simp split: rule_op.splits)

lemma SearchDomain_tree_ok:
  assumes "tree_ok t" and "keys \<noteq> []"
  shows "SearchDomain t keys =
    (if inner_domain (rule t) keys then ([], False)
     else case longest_rule (rule t) keys of Some v \<Rightarrow> (v, True) | None \<Rightarrow> ([], False))"
proof (cases "node_at t (rev keys)")
  case None
  with assms node_at_iff_rule [of t keys] have "\<not> inner_domain (rule t) keys"
    by (auto simp: inner_domain_def tree_ok_def)
  with None show ?thesis by (simp add: SearchDomain_longest)
next
  case (Some c)
  with assms node_at_iff_rule [of t keys]
  have inner: "inner_domain (rule t) keys \<longleftrightarrow> rule t keys = None"
    by (auto simp: inner_domain_def tree_ok_def)
  have "SearchDomain t keys = (node_val c, node_val c \<noteq> [])"
    using Some by (simp add: SearchDomain_def search_loop_node_at)
  moreover have "rule t keys = (if node_val c = [] then None else Some (node_val c))"
    using Some by (simp add: rule_def path_rule_def)
  ultimately show ?thesis using inner assms(2) by (cases keys) auto
qed

section \<open>Properties\<close>

text \<open>C5: After any sequence of insertions and deletions from the empty tree, the rules stored
  in the tree are those of the abstract map under the same operations; inserting the empty
  value removes the rule.\<close>

theorem tree_refines_map:
  "rule (fold tree_op ops newSuffixTreeRoot) = fold spec_op ops Map.empty"
  unfolding tree_op_case tree.rules_run tree.rules_new ..

text \<open>C6: A search returns the rule of the longest suffix of the domain that has one, and "not
  found" when there is none or when the domain itself has no rule but a longer domain has: the
  functional specification of \<open>SearchDomain\<close> on every tree the operations build.\<close>

theorem search_is_longest_match:
  assumes "list_all value_op ops" and "keys \<noteq> []"
  shows "SearchDomain (fold tree_op ops newSuffixTreeRoot) keys =
    (let m = fold spec_op ops Map.empty in
     if inner_domain m keys then ([], False)
     else case longest_rule m keys of Some v \<Rightarrow> (v, True) | None \<Rightarrow> ([], False))"
proof -
  let ?t = "fold tree_op ops newSuffixTreeRoot"
  have "tree_ok ?t"
    unfolding tree_op_case by (rule tree.ok_run [OF tree.ok_new assms(1)])
  moreover have "rule ?t = fold spec_op ops Map.empty"
    unfolding tree_op_case tree.rules_run tree.rules_new ..
  ultimately show ?thesis using SearchDomain_tree_ok assms(2) by simp
qed

theorem search_is_longest_match_witness:
  "SearchDomain (fold tree_op [Insert_op [''google'', ''com''] ''8.8.8.8''] newSuffixTreeRoot)
     [''www'', ''google'', ''com''] = (''8.8.8.8'', True)"
proof -
  let ?ops = "[Insert_op [''google'', ''com''] ''8.8.8.8'']"
  have ops: "list_all value_op ?ops" by simp
  have "\<not> inner_domain (fold spec_op ?ops Map.empty) [''www'', ''google'', ''com'']"
    by (auto simp: inner_domain_def append_eq_Cons_conv)
  then show ?thesis
    using search_is_longest_match [OF ops, of "[''www'', ''google'', ''com'']"] by simp
qed

text \<open>The rule of a domain is hidden from a subdomain that is an inner node of the tree: with
  rules for \<open>b.c\<close> and for \<open>x.a.b.c\<close> but none for \<open>a.b.c\<close>, the search for \<open>a.b.c\<close> finds
  nothing, although the longest match is the rule of \<open>b.c\<close>.\<close>

theorem search_hides_parent_rule:
  assumes "rule t keys = None" and "rule t (pre @ keys) \<noteq> None"
  shows "SearchDomain t keys = ([], False)"
proof -
  from assms(2) obtain c where c: "node_at t (rev keys) = Some c"
    by (auto simp: rule_def path_rule_append split: option.splits)
  with assms(1) have "node_val c = []"
    by (simp add: rule_def path_rule_def split: if_splits)
  with c show ?thesis by (simp add: SearchDomain_def search_loop_node_at)
qed

theorem search_hides_parent_rule_witness:
  "let t = InsertDomain (InsertDomain newSuffixTreeRoot [''google'', ''com''] ''8.8.8.8'')
             [''a'', ''b'', ''google'', ''com''] ''1.1.1.1''
   in longest_rule (rule t) [''b'', ''google'', ''com''] = Some ''8.8.8.8'' \<and>
      SearchDomain t [''b'', ''google'', ''com''] = ([], False)"
proof -
  let ?t = "InsertDomain (InsertDomain newSuffixTreeRoot [''google'', ''com''] ''8.8.8.8'')
              [''a'', ''b'', ''google'', ''com''] ''1.1.1.1''"
  have r: "rule ?t [''b'', ''google'', ''com''] = None"
    "rule ?t ([''a''] @ [''b'', ''google'', ''com'']) \<noteq> None"
    by (simp_all add: rule_InsertDomain tree.rules_new)
  from search_hides_parent_rule [OF r] show ?thesis
    by (simp add: rule_InsertDomain tree.rules_new)
qed

text \<open>C32: \<open>Delete\<close>, with its walk down and its clean-up loop, computes the recursive deletion
  that drops every node left without value and children, and leaves the tree as it is when the
  domain is not in it.\<close>

theorem Delete_is_recursive_delete:
  "Delete t keys = (case delete_rec (rev keys) t of None \<Rightarrow> t | Some t' \<Rightarrow> t')"
  by (rule Delete_rec)



end
