(* ===== verification/Memory_Cache.thy ===== *)
theory Memory_Cache
  imports Go_Prelude
begin

text \<open>
  The in-memory cache of \<open>cache.go\<close>: the errors of the package, the struct \<open>MemoryCache\<close> and its
  methods, as state passing. A cached message is a pointer that may be \<open>nil\<close> (the negative cache
  stores \<open>nil\<close>), hence \<^typ>\<open>'m option\<close> over an arbitrary type of messages. A method that reads
  the clock takes the reading as its first argument. Locks are left out here: each method is taken
  as one step; the theory \<open>Cache_Threads\<close> splits the methods at their critical sections.

  The contract of a cache, as its clients use it, is the locale \<open>bounded_cache\<close>: a partial map that
  forgets entries when their time is over, bounded in size. \<open>MemoryCache\<close> is an interpretation of
  it.
\<close>

section \<open>The model\<close>

datatype cache_error =
    KeyNotFound string
  | KeyExpired string
  | CacheIsFull
  | SerializerError string
  | BackendError string

record 'm Mesg =
  Mesg_Msg :: "'m option"
  Mesg_Expire :: time

record 'm MemoryCache =
  Backend :: "(string, 'm Mesg) fmap"
  Expire :: duration
  Maxcount :: int

definition MemoryCache_Exists :: "'m MemoryCache \<Rightarrow> string \<Rightarrow> bool" where
  "MemoryCache_Exists c key \<longleftrightarrow> fmlookup (Backend c) key \<noteq> None"

definition MemoryCache_Length :: "'m MemoryCache \<Rightarrow> int" where
  "MemoryCache_Length c = int (map_len (Backend c))"

definition MemoryCache_Full :: "'m MemoryCache \<Rightarrow> bool" where
  "MemoryCache_Full c \<longleftrightarrow>
     (if Maxcount c = 0 then False else MemoryCache_Length c \<ge> Maxcount c)"

definition MemoryCache_Remove :: "'m MemoryCache \<Rightarrow> string \<Rightarrow> 'm MemoryCache" where
  "MemoryCache_Remove c key = c\<lparr>Backend := fmdrop key (Backend c)\<rparr>"

definition MemoryCache_Get ::
  "time \<Rightarrow> 'm MemoryCache \<Rightarrow> string \<Rightarrow> (cache_error + 'm option) \<times> 'm MemoryCache" where
  "MemoryCache_Get now c key =
     (case fmlookup (Backend c) key of
        None \<Rightarrow> (Inl (KeyNotFound key), c)
      | Some mesg \<Rightarrow>
          if Mesg_Expire mesg < now then (Inl (KeyExpired key), MemoryCache_Remove c key)
          else (Inr (Mesg_Msg mesg), c))"

definition MemoryCache_store :: "time \<Rightarrow> 'm MemoryCache \<Rightarrow> string \<Rightarrow> 'm option \<Rightarrow> 'm MemoryCache" where
  "MemoryCache_store now c key msg =
     c\<lparr>Backend := fmupd key \<lparr>Mesg_Msg = msg, Mesg_Expire = now + Expire c\<rparr> (Backend c)\<rparr>"

definition MemoryCache_Set ::
  "time \<Rightarrow> 'm MemoryCache \<Rightarrow> string \<Rightarrow> 'm option \<Rightarrow> cache_error option \<times> 'm MemoryCache" where
  "MemoryCache_Set now c key msg =
     (if MemoryCache_Full c \<and> \<not> MemoryCache_Exists c key then (Some CacheIsFull, c)
      else (None, MemoryCache_store now c key msg))"

text \<open>The literal of \<open>NewHandler\<close>: an empty map, the configured lifetime and bound.\<close>

definition new_MemoryCache :: "duration \<Rightarrow> int \<Rightarrow> 'm MemoryCache" where
  "new_MemoryCache expire maxcount = \<lparr>Backend = fmempty, Expire = expire, Maxcount = maxcount\<rparr>"

lemmas MemoryCache_defs =
  MemoryCache_Get_def MemoryCache_Set_def MemoryCache_Remove_def MemoryCache_Exists_def
  MemoryCache_Full_def MemoryCache_Length_def MemoryCache_store_def

section \<open>The contract of a cache\<close>

text \<open>What a cache holds at a time: the messages whose time is not over.\<close>

definition live_entries :: "time \<Rightarrow> 'm MemoryCache \<Rightarrow> string \<Rightarrow> 'm option option" where
  "live_entries now c key =
     (case fmlookup (Backend c) key of
        None \<Rightarrow> None
      | Some mesg \<Rightarrow> if Mesg_Expire mesg < now then None else Some (Mesg_Msg mesg))"

definition within_bound :: "'m MemoryCache \<Rightarrow> bool" where
  "within_bound c \<longleftrightarrow> 0 < Maxcount c \<longrightarrow> MemoryCache_Length c \<le> Maxcount c"

datatype 'm cache_op = Get_op time string | Set_op time string "'m option" | Remove_op string

fun MemoryCache_op :: "'m cache_op \<Rightarrow> 'm MemoryCache \<Rightarrow> 'm MemoryCache" where
  "MemoryCache_op (Get_op now key) c = snd (MemoryCache_Get now c key)"
| "MemoryCache_op (Set_op now key msg) c = snd (MemoryCache_Set now c key msg)"
| "MemoryCache_op (Remove_op key) c = MemoryCache_Remove c key"

locale bounded_cache =
  fixes get :: "time \<Rightarrow> 'c \<Rightarrow> string \<Rightarrow> (cache_error + 'm option) \<times> 'c"
    and set :: "time \<Rightarrow> 'c \<Rightarrow> string \<Rightarrow> 'm option \<Rightarrow> cache_error option \<times> 'c"
    and live :: "time \<Rightarrow> 'c \<Rightarrow> string \<Rightarrow> 'm option option"
    and lifetime :: "'c \<Rightarrow> duration"
    and ok :: "'c \<Rightarrow> bool"
  assumes get_result: "(case fst (get now c key) of Inr m \<Rightarrow> live now c key = Some m
                                                  | Inl _ \<Rightarrow> live now c key = None)"
    and get_live: "now \<le> now' \<Longrightarrow> live now' (snd (get now c key)) = live now' c"
    and set_live: "fst (set now c key m) = None \<Longrightarrow> live now' (snd (set now c key m)) =
          (live now' c)(key := (if now + lifetime c < now' then None else Some m))"
    and set_failed: "fst (set now c key m) \<noteq> None \<Longrightarrow> snd (set now c key m) = c"
    and lifetime_get: "lifetime (snd (get now c key)) = lifetime c"
    and lifetime_set: "lifetime (snd (set now c key m)) = lifetime c"
    and ok_get: "ok c \<Longrightarrow> ok (snd (get now c key))"
    and ok_set: "ok c \<Longrightarrow> ok (snd (set now c key m))"
begin

lemma get_hit: "live now c key = Some m \<Longrightarrow> fst (get now c key) = Inr m"
  using get_result [of now c key] by (auto split: sum.splits)

lemma get_hit_iff: "fst (get now c key) = Inr m \<longleftrightarrow> live now c key = Some m"
  using get_result [of now c key] by (auto split: sum.splits)

lemma get_miss_iff: "(\<exists>e. fst (get now c key) = Inl e) \<longleftrightarrow> live now c key = None"
  using get_result [of now c key] by (auto split: sum.splits)

lemma set_get:
  "fst (set now c key m) = None \<Longrightarrow> now' \<le> now + lifetime c \<Longrightarrow>
     fst (get now' (snd (set now c key m)) key) = Inr m"
  by (rule get_hit) (simp add: set_live)

lemma set_get_late:
  "fst (set now c key m) = None \<Longrightarrow> now + lifetime c < now' \<Longrightarrow>
     \<exists>e. fst (get now' (snd (set now c key m)) key) = Inl e"
  unfolding get_miss_iff by (simp add: set_live)

lemma set_frame:
  "key' \<noteq> key \<Longrightarrow> live now' (snd (set now c key m)) key' = live now' c key'"
  using set_live [of now c key m] set_failed [of now c key m]
  by (cases "fst (set now c key m)") auto

end

section \<open>MemoryCache implements it\<close>

lemma Maxcount_ops [simp]:
  "Maxcount (snd (MemoryCache_Get now c key)) = Maxcount c"
  "Maxcount (snd (MemoryCache_Set now c key m)) = Maxcount c"
  "Maxcount (MemoryCache_Remove c key) = Maxcount c"
  by (auto simp: MemoryCache_defs split: option.splits)

lemma within_bound_Remove: "within_bound c \<Longrightarrow> within_bound (MemoryCache_Remove c key)"
  using map_len_fmdrop_le [of key "Backend c"]
  by (auto simp: within_bound_def MemoryCache_defs)

lemma within_bound_Get: "within_bound c \<Longrightarrow> within_bound (snd (MemoryCache_Get now c key))"
  by (auto simp: MemoryCache_Get_def within_bound_Remove split: option.splits)

lemma within_bound_Set: "within_bound c \<Longrightarrow> within_bound (snd (MemoryCache_Set now c key m))"
  by (auto simp: within_bound_def MemoryCache_defs map_len_fmupd fmdom_notI fmlookup_dom_iff
        split: if_splits)

interpretation mem: bounded_cache MemoryCache_Get MemoryCache_Set live_entries Expire within_bound
proof unfold_locales
  show "within_bound c \<Longrightarrow> within_bound (snd (MemoryCache_Get now c key))"
    for now key and c :: "'m MemoryCache" by (rule within_bound_Get)
  show "within_bound c \<Longrightarrow> within_bound (snd (MemoryCache_Set now c key m))"
    for now key m and c :: "'m MemoryCache" by (rule within_bound_Set)
  show "(case fst (MemoryCache_Get now c key) of
      Inl _ \<Rightarrow> live_entries now c key = None | Inr m \<Rightarrow> live_entries now c key = Some m)"
    for now key and c :: "'m MemoryCache"
    by (auto simp: MemoryCache_Get_def live_entries_def split: option.splits)
  show "live_entries now' (snd (MemoryCache_Get now c key)) = live_entries now' c"
    if "now \<le> now'" for now now' key and c :: "'m MemoryCache"
    using that by (intro ext) (auto simp: MemoryCache_defs live_entries_def split: option.splits)
qed (auto simp: MemoryCache_defs live_entries_def split: option.splits if_splits intro!: ext)

text \<open>Operations that can not disturb a key that is live until \<open>now\<close>: reads up to that time, and
  changes of other keys.\<close>

fun keeps :: "string \<Rightarrow> time \<Rightarrow> 'm cache_op \<Rightarrow> bool" where
  "keeps key now (Get_op t k) \<longleftrightarrow> t \<le> now"
| "keeps key now (Set_op t k m) \<longleftrightarrow> k \<noteq> key"
| "keeps key now (Remove_op k) \<longleftrightarrow> k \<noteq> key"

lemma live_op: "keeps key now op \<Longrightarrow> live_entries now (MemoryCache_op op c) key = live_entries now c key"
proof (cases op)
  case (Get_op t k)
  assume "keeps key now op"
  with Get_op show ?thesis by (simp add: mem.get_live)
next
  case (Set_op t k m)
  assume "keeps key now op"
  with Set_op show ?thesis by (simp add: mem.set_frame)
qed (auto simp: MemoryCache_Remove_def live_entries_def)

lemma live_run:
  "list_all (keeps key now) ops \<Longrightarrow>
     live_entries now (fold MemoryCache_op ops c) key = live_entries now c key"
  by (induction ops arbitrary: c) (auto simp: live_op)

lemma within_bound_op: "within_bound c \<Longrightarrow> within_bound (MemoryCache_op op c)"
  by (cases op) (auto simp: within_bound_Get within_bound_Set within_bound_Remove)

lemma within_bound_run: "within_bound c \<Longrightarrow> within_bound (fold MemoryCache_op ops c)"
  by (induction ops arbitrary: c) (auto simp: within_bound_op)

lemma Maxcount_run [simp]: "Maxcount (fold MemoryCache_op ops c) = Maxcount c"
proof (induction ops arbitrary: c)
  case (Cons op ops)
  then show ?case by (cases op) auto
qed simp

section \<open>Properties\<close>

text \<open>C11: With a positive \<open>Maxcount\<close> the cache never holds more entries than that, after any
  sequence of \<open>Get\<close>, \<open>Set\<close> and \<open>Remove\<close> calls that do not overlap.\<close>

theorem cache_never_over_capacity:
  assumes "0 < maxcount"
  shows "MemoryCache_Length (fold MemoryCache_op ops (new_MemoryCache expire maxcount)) \<le> maxcount"
proof -
  let ?c = "new_MemoryCache expire maxcount :: 'a MemoryCache"
  have "within_bound ?c"
    using assms by (simp add: within_bound_def MemoryCache_Length_def new_MemoryCache_def)
  then have "within_bound (fold MemoryCache_op ops ?c)" by (rule within_bound_run)
  with assms show ?thesis by (simp add: within_bound_def new_MemoryCache_def)
qed

theorem cache_never_over_capacity_witness:
  "MemoryCache_Length (fold MemoryCache_op [Set_op 0 ''a'' (Some (1::nat)), Set_op 1 ''b'' None]
     (new_MemoryCache 600 1)) \<le> 1"
  by (rule cache_never_over_capacity) simp

text \<open>C10: A message that was stored is returned by every \<open>Get\<close> until its lifetime is over, whatever
  calls on other keys and reads of the same key come in between.\<close>

theorem cache_get_after_set:
  assumes "fst (MemoryCache_Set t c key msg) = None"
    and "now \<le> t + Expire c" and "list_all (keeps key now) ops"
  shows "fst (MemoryCache_Get now (fold MemoryCache_op ops (snd (MemoryCache_Set t c key msg))) key)
           = Inr msg"
  using assms by (simp add: mem.get_hit_iff live_run mem.set_live)

theorem cache_get_after_set_witness:
  "fst (MemoryCache_Get 500 (fold MemoryCache_op [Set_op 7 ''b'' None, Get_op 400 ''a'']
      (snd (MemoryCache_Set 3 (new_MemoryCache 600 2) ''a'' (Some (5::nat))))) ''a'')
     = Inr (Some 5)"
  by (rule cache_get_after_set)
     (simp_all add: MemoryCache_defs new_MemoryCache_def)

text \<open>Every outcome of \<open>Get\<close>: a key that is not stored is \<open>KeyNotFound\<close> and changes nothing; an
  entry whose time is over is \<open>KeyExpired\<close> and is removed; any other entry is returned and changes
  nothing.\<close>

theorem cache_get_outcomes:
  "MemoryCache_Get now c key =
     (if \<not> MemoryCache_Exists c key then (Inl (KeyNotFound key), c)
      else if live_entries now c key = None
        then (Inl (KeyExpired key), c\<lparr>Backend := fmdrop key (Backend c)\<rparr>)
      else (Inr (the (live_entries now c key)), c))"
  by (auto simp: MemoryCache_defs live_entries_def split: option.splits)

text \<open>\<open>Set\<close> is refused exactly when the cache is full and the key is new; a refused \<open>Set\<close> changes
  nothing, an accepted one changes no other key and sets the lifetime of its own.\<close>

theorem cache_set_outcomes:
  "(fst (MemoryCache_Set t c key msg) \<noteq> None \<longleftrightarrow>
      Maxcount c \<noteq> 0 \<and> Maxcount c \<le> MemoryCache_Length c \<and> \<not> MemoryCache_Exists c key) \<and>
   live_entries now (snd (MemoryCache_Set t c key msg)) =
     (if fst (MemoryCache_Set t c key msg) \<noteq> None then live_entries now c
      else (live_entries now c)(key := (if t + Expire c < now then None else Some msg)))"
  using mem.set_live [of t c key msg now] mem.set_failed [of t c key msg]
  by (auto simp: MemoryCache_Set_def MemoryCache_Full_def)

end
