(* ===== verification/Cache_Threads.thy ===== *)
theory Cache_Threads
  imports Memory_Cache
begin

text \<open>
  The methods of \<open>MemoryCache\<close> under concurrency. The server handles each query in a goroutine of
  its own, and every goroutine calls the methods of the shared cache. A method takes the lock for
  each access to the map and lets go of it in between, so its critical sections are the atomic
  steps: \<open>Get\<close> reads, and removes an expired entry in a second section; \<open>Set\<close> asks \<open>Full\<close>, then
  \<open>Exists\<close>, then stores.

  A system is the cache and, for each of \<open>n\<close> goroutines, the section it is about to enter. The
  step relation \<open>cache_step\<close> has a rule for each section. Run without interruption, the steps are
  the methods of \<open>Memory_Cache\<close>. Interleaved, the bound of the cache is weaker: every goroutine
  may have passed the test before any of them stores.
\<close>

section \<open>The model\<close>

datatype 'm cache_section =
    Idle
  | Get_Remove string
  | Set_Exists string "'m option"
  | Set_Store string "'m option"

record 'm cache_sys =
  shared :: "'m MemoryCache"
  at :: "nat \<Rightarrow> 'm cache_section"

definition goto :: "nat \<Rightarrow> 'm cache_section \<Rightarrow> 'm cache_sys \<Rightarrow> 'm cache_sys" where
  "goto i sec s = s\<lparr>at := (at s)(i := sec)\<rparr>"

inductive cache_step :: "nat \<Rightarrow> 'm cache_sys \<Rightarrow> 'm cache_sys \<Rightarrow> bool" for n where
  get_returns: "i < n \<Longrightarrow> at s i = Idle \<Longrightarrow>
     \<not> (\<exists>mesg. fmlookup (Backend (shared s)) key = Some mesg \<and> Mesg_Expire mesg < now) \<Longrightarrow>
     cache_step n s s"
| get_expired: "i < n \<Longrightarrow> at s i = Idle \<Longrightarrow>
     fmlookup (Backend (shared s)) key = Some mesg \<Longrightarrow> Mesg_Expire mesg < now \<Longrightarrow>
     cache_step n s (goto i (Get_Remove key) s)"
| get_removes: "i < n \<Longrightarrow> at s i = Get_Remove key \<Longrightarrow>
     cache_step n s (goto i Idle (s\<lparr>shared := MemoryCache_Remove (shared s) key\<rparr>))"
| set_not_full: "i < n \<Longrightarrow> at s i = Idle \<Longrightarrow> \<not> MemoryCache_Full (shared s) \<Longrightarrow>
     cache_step n s (goto i (Set_Store key msg) s)"
| set_full: "i < n \<Longrightarrow> at s i = Idle \<Longrightarrow> MemoryCache_Full (shared s) \<Longrightarrow>
     cache_step n s (goto i (Set_Exists key msg) s)"
| set_exists: "i < n \<Longrightarrow> at s i = Set_Exists key msg \<Longrightarrow> MemoryCache_Exists (shared s) key \<Longrightarrow>
     cache_step n s (goto i (Set_Store key msg) s)"
| set_refused: "i < n \<Longrightarrow> at s i = Set_Exists key msg \<Longrightarrow> \<not> MemoryCache_Exists (shared s) key \<Longrightarrow>
     cache_step n s (goto i Idle s)"
| set_stores: "i < n \<Longrightarrow> at s i = Set_Store key msg \<Longrightarrow>
     cache_step n s (goto i Idle (s\<lparr>shared := MemoryCache_store now (shared s) key msg\<rparr>))"
| removes: "i < n \<Longrightarrow> at s i = Idle \<Longrightarrow>
     cache_step n s (s\<lparr>shared := MemoryCache_Remove (shared s) key\<rparr>)"

definition start_sys :: "'m MemoryCache \<Rightarrow> 'm cache_sys" where
  "start_sys c = \<lparr>shared = c, at = (\<lambda>_. Idle)\<rparr>"

inductive cache_reachable :: "nat \<Rightarrow> 'm MemoryCache \<Rightarrow> 'm cache_sys \<Rightarrow> bool" for n c where
  start: "cache_reachable n c (start_sys c)"
| step: "cache_reachable n c s \<Longrightarrow> cache_step n s t \<Longrightarrow> cache_reachable n c t"

lemma cache_reachable_steps: "(cache_step n)\<^sup>*\<^sup>* s t \<Longrightarrow> cache_reachable n c s \<Longrightarrow> cache_reachable n c t"
  by (induction rule: rtranclp_induct) (auto intro: cache_reachable.step)

section \<open>One goroutine alone\<close>

lemma at_goto [simp]: "at (goto i sec s) = (at s)(i := sec)"
  by (simp add: goto_def)

lemma shared_goto [simp]: "shared (goto i sec s) = shared s"
  by (simp add: goto_def)

lemma goto_goto [simp]: "goto i sec (goto i sec' s) = goto i sec s"
  by (simp add: goto_def)

lemma goto_shared: "goto i sec (s\<lparr>shared := c\<rparr>) = (goto i sec s)\<lparr>shared := c\<rparr>"
  by (simp add: goto_def)

lemma goto_same: "at s i = sec \<Longrightarrow> goto i sec s = s"
  by (simp add: goto_def fun_upd_idem)

lemma store_run:
  assumes "i < n" and "at s i = Set_Store key msg"
  shows "cache_step n s ((goto i Idle s)\<lparr>shared := MemoryCache_store now (shared s) key msg\<rparr>)"
  using cache_step.set_stores [OF assms] by (simp add: goto_shared)

section \<open>The bound under concurrency\<close>

definition pending :: "'m cache_sys \<Rightarrow> string set" where
  "pending s = {key. \<exists>i msg. at s i = Set_Store key msg}"

definition stored :: "'m cache_sys \<Rightarrow> string set" where
  "stored s = fset (fmdom (Backend (shared s)))"

definition threads_inv :: "nat \<Rightarrow> int \<Rightarrow> 'm cache_sys \<Rightarrow> bool" where
  "threads_inv n maxcount s \<longleftrightarrow>
     Maxcount (shared s) = maxcount \<and> (\<forall>i\<ge>n. at s i = Idle) \<and>
     int (card (stored s \<union> pending s)) \<le> maxcount - 1 + int n"

lemma finite_stored [simp]: "finite (stored s)"
  by (simp add: stored_def)

lemma card_stored: "int (card (stored s)) = MemoryCache_Length (shared s)"
  by (simp add: stored_def MemoryCache_Length_def map_len_def fcard.rep_eq)

lemma pending_image:
  assumes "\<forall>i\<ge>n. at s i = Idle"
  shows "finite (pending s) \<and> card (pending s) \<le> n"
proof -
  let ?key = "\<lambda>i. case at s i of Set_Store key msg \<Rightarrow> key | _ \<Rightarrow> []"
  have sub: "pending s \<subseteq> ?key ` {..<n}"
  proof
    fix key assume "key \<in> pending s"
    then obtain i msg where i: "at s i = Set_Store key msg" by (auto simp: pending_def)
    with assms have "i < n" by (metis not_le cache_section.distinct(5))
    with i show "key \<in> ?key ` {..<n}" by force
  qed
  then show ?thesis
    using card_mono [OF _ sub] card_image_le [of "{..<n}" ?key] finite_subset [OF sub] by simp
qed

lemma pending_goto_store: "pending (goto i (Set_Store key msg) s) \<subseteq> insert key (pending s)"
  by (auto simp: pending_def split: if_splits)

lemma pending_goto_other:
  "(\<And>key msg. sec \<noteq> Set_Store key msg) \<Longrightarrow> pending (goto i sec s) \<subseteq> pending s"
  by (auto simp: pending_def split: if_splits)

lemma pending_shared [simp]: "pending (s\<lparr>shared := c\<rparr>) = pending s"
  by (simp add: pending_def)

lemma stored_simps [simp]:
  "stored (goto i sec s) = stored s"
  "stored (s\<lparr>shared := MemoryCache_Remove c key\<rparr>) = fset (fmdom (Backend c)) - {key}"
  "stored (s\<lparr>shared := MemoryCache_store now c key msg\<rparr>) = insert key (fset (fmdom (Backend c)))"
  by (auto simp: stored_def MemoryCache_Remove_def MemoryCache_store_def)

lemma threads_invI:
  assumes "Maxcount (shared s) = m" and "\<forall>i\<ge>n. at s i = Idle"
    and "int (card (stored s \<union> pending s)) \<le> m - 1 + int n"
  shows "threads_inv n m s"
  using assms by (simp add: threads_inv_def)

lemma threads_inv_shrink:
  assumes "threads_inv n m s" and "Maxcount (shared t) = Maxcount (shared s)"
    and "\<forall>i\<ge>n. at t i = Idle" and "stored t \<union> pending t \<subseteq> stored s \<union> pending s"
  shows "threads_inv n m t"
proof -
  have "finite (stored s \<union> pending s)"
    using assms(1) pending_image by (auto simp: threads_inv_def)
  then have "card (stored t \<union> pending t) \<le> card (stored s \<union> pending s)"
    using assms(4) by (rule card_mono)
  with assms(1) have "int (card (stored t \<union> pending t)) \<le> m - 1 + int n"
    by (simp add: threads_inv_def)
  with assms show ?thesis by (intro threads_invI) (simp_all add: threads_inv_def)
qed

lemma threads_inv_goto:
  assumes "threads_inv n m s" and "i < n" and "\<And>key msg. sec \<noteq> Set_Store key msg"
  shows "threads_inv n m (goto i sec s)"
proof (rule threads_inv_shrink [OF assms(1)])
  show "stored (goto i sec s) \<union> pending (goto i sec s) \<subseteq> stored s \<union> pending s"
    using pending_goto_other [OF assms(3)] by fastforce
qed (use assms in \<open>auto simp: threads_inv_def\<close>)

lemma threads_inv_Remove:
  assumes "threads_inv n m s"
  shows "threads_inv n m (s\<lparr>shared := MemoryCache_Remove (shared s) key\<rparr>)"
proof (rule threads_inv_shrink [OF assms])
  show "stored (s\<lparr>shared := MemoryCache_Remove (shared s) key\<rparr>) \<union>
      pending (s\<lparr>shared := MemoryCache_Remove (shared s) key\<rparr>) \<subseteq> stored s \<union> pending s"
    by (auto simp: stored_def [of s])
qed (use assms in \<open>auto simp: threads_inv_def\<close>)

lemma threads_inv_step:
  "cache_step n s t \<Longrightarrow> threads_inv n m s \<Longrightarrow> 0 < m \<Longrightarrow> threads_inv n m t"
proof (induction rule: cache_step.induct)
  case (set_not_full i s key msg)
  let ?t = "goto i (Set_Store key msg) s"
  have idle: "\<forall>j\<ge>n. at ?t j = Idle"
    using set_not_full by (auto simp: threads_inv_def)
  have "int (card (stored s)) \<le> m - 1"
    using set_not_full by (auto simp: card_stored MemoryCache_Full_def threads_inv_def)
  moreover have "card (stored s \<union> pending ?t) \<le> card (stored s) + card (pending ?t)"
    by (rule card_Un_le)
  moreover have "card (pending ?t) \<le> n"
    using pending_image [OF idle] by simp
  moreover have "Maxcount (shared ?t) = m"
    using set_not_full by (simp add: threads_inv_def)
  ultimately show ?case using idle by (intro threads_invI) simp_all
next
  case (set_exists i s key msg)
  then have "key \<in> stored s"
    by (auto simp: MemoryCache_Exists_def stored_def fmlookup_dom_iff)
  then have "pending (goto i (Set_Store key msg) s) \<subseteq> stored s \<union> pending s"
    using pending_goto_store by fastforce
  with set_exists threads_inv_shrink [of n m s "goto i (Set_Store key msg) s"] show ?case
    by (simp add: threads_inv_def)
next
  case (set_stores i s key msg now)
  let ?s' = "s\<lparr>shared := MemoryCache_store now (shared s) key msg\<rparr>"
  from set_stores have "key \<in> pending s" by (auto simp: pending_def)
  then have "stored ?s' \<union> pending ?s' \<subseteq> stored s \<union> pending s"
    by (auto simp: stored_def [of s])
  with set_stores threads_inv_shrink [of n m s ?s'] have "threads_inv n m ?s'"
    by (simp add: threads_inv_def MemoryCache_store_def)
  with set_stores show ?case by (simp add: threads_inv_goto)
qed (auto intro: threads_inv_goto threads_inv_Remove)

lemma threads_inv_reachable:
  assumes "cache_reachable n c s" and "0 < n" and "0 < Maxcount c" and "within_bound c"
  shows "threads_inv n (Maxcount c) s"
  using assms(1)
proof (induction rule: cache_reachable.induct)
  case start
  have "pending (start_sys c) = {}" by (simp add: pending_def start_sys_def)
  moreover have "int (card (stored (start_sys c))) \<le> Maxcount c"
    using assms by (simp add: card_stored within_bound_def start_sys_def)
  ultimately show ?case using assms(2) by (simp add: threads_inv_def start_sys_def)
next
  case (step s t)
  then show ?case using threads_inv_step assms(3) by blast
qed

section \<open>Uninterrupted runs are the methods\<close>

lemma set_run:
  assumes i: "i < n" "at s i = Idle"
  shows "(cache_step n)\<^sup>*\<^sup>* s (s\<lparr>shared := snd (MemoryCache_Set now (shared s) key msg)\<rparr>)"
proof -
  let ?store = "goto i (Set_Store key msg) s"
  have store: "cache_step n ?store (s\<lparr>shared := MemoryCache_store now (shared s) key msg\<rparr>)"
    using store_run [of i n ?store key msg now] i by (simp add: goto_same)
  show ?thesis
  proof (cases "MemoryCache_Full (shared s)")
    case False
    have "cache_step n s ?store" using cache_step.set_not_full [OF i False] .
    with store False show ?thesis
      by (auto simp: MemoryCache_Set_def intro: converse_rtranclp_into_rtranclp)
  next
    case True
    let ?ask = "goto i (Set_Exists key msg) s"
    have ask: "cache_step n s ?ask" using cache_step.set_full [OF i True] .
    show ?thesis
    proof (cases "MemoryCache_Exists (shared s) key")
      case exists: True
      have "cache_step n ?ask ?store"
        using cache_step.set_exists [of i n ?ask key msg] i exists by simp
      with ask store exists show ?thesis
        by (auto simp: MemoryCache_Set_def intro: converse_rtranclp_into_rtranclp)
    next
      case False
      have "cache_step n ?ask s"
        using cache_step.set_refused [of i n ?ask key msg] i False by (simp add: goto_same)
      with ask True False show ?thesis
        by (auto simp: MemoryCache_Set_def intro: converse_rtranclp_into_rtranclp)
    qed
  qed
qed

lemma get_run:
  assumes i: "i < n" "at s i = Idle"
  shows "(cache_step n)\<^sup>*\<^sup>* s (s\<lparr>shared := snd (MemoryCache_Get now (shared s) key)\<rparr>)"
proof (cases "\<exists>mesg. fmlookup (Backend (shared s)) key = Some mesg \<and> Mesg_Expire mesg < now")
  case True
  then obtain mesg where mesg: "fmlookup (Backend (shared s)) key = Some mesg" "Mesg_Expire mesg < now"
    by blast
  let ?rm = "goto i (Get_Remove key) s"
  have "cache_step n s ?rm" using cache_step.get_expired [OF i mesg] .
  moreover have "cache_step n ?rm (s\<lparr>shared := MemoryCache_Remove (shared s) key\<rparr>)"
    using cache_step.get_removes [of i n ?rm key] i by (simp add: goto_shared goto_same)
  ultimately show ?thesis
    using mesg by (auto simp: MemoryCache_Get_def intro: converse_rtranclp_into_rtranclp)
next
  case False
  then show ?thesis by (auto simp: MemoryCache_Get_def split: option.splits)
qed

lemma remove_run:
  "i < n \<Longrightarrow> at s i = Idle \<Longrightarrow>
     (cache_step n)\<^sup>*\<^sup>* s (s\<lparr>shared := MemoryCache_Remove (shared s) key\<rparr>)"
  using cache_step.removes by blast

section \<open>Properties\<close>



text \<open>C22: With \<open>n\<close> goroutines calling the cache at the same time, it never holds more than
  \<open>Maxcount - 1 + n\<close> entries: \<open>Set\<close> tests the bound and stores in separate critical sections, so
  each goroutine can add one entry beyond the test, and no more.\<close>

theorem concurrent_capacity:
  assumes "cache_reachable n c s" and "0 < n" and "0 < Maxcount c" and "within_bound c"
  shows "MemoryCache_Length (shared s) \<le> Maxcount c - 1 + int n"
proof -
  have inv: "threads_inv n (Maxcount c) s"
    by (rule threads_inv_reachable [OF assms])
  then have "finite (stored s \<union> pending s)"
    using pending_image by (auto simp: threads_inv_def)
  then have "card (stored s) \<le> card (stored s \<union> pending s)"
    by (intro card_mono) auto
  with inv show ?thesis by (simp add: threads_inv_def card_stored [symmetric])
qed

theorem concurrent_capacity_witness:
  "let c = new_MemoryCache 600 1 :: nat MemoryCache;
       s = (start_sys c)\<lparr>shared := snd (MemoryCache_Set 0 c ''a'' (Some 7))\<rparr>
   in MemoryCache_Length (shared s) \<le> Maxcount c - 1 + int 2"
proof -
  let ?c = "new_MemoryCache 600 1 :: nat MemoryCache"
  let ?s = "(start_sys ?c)\<lparr>shared := snd (MemoryCache_Set 0 ?c ''a'' (Some 7))\<rparr>"
  have "cache_reachable 2 ?c ?s"
    using set_run [of 0 2 "start_sys ?c" 0 "''a''" "Some 7"]
    by (intro cache_reachable_steps [OF _ cache_reachable.start]) (simp add: start_sys_def)
  then have "MemoryCache_Length (shared ?s) \<le> Maxcount ?c - 1 + int 2"
    by (rule concurrent_capacity)
       (simp_all add: new_MemoryCache_def within_bound_def MemoryCache_Length_def)
  then show ?thesis by (simp only: Let_def)
qed

text \<open>C37: The bound is reached: two goroutines that store different keys in an empty cache with
  \<open>Maxcount = 1\<close> can leave two entries in it, more than the bound that holds without
  overlapping calls.\<close>

theorem concurrent_overshoot:
  "\<exists>s. cache_reachable 2 (new_MemoryCache 600 1 :: nat MemoryCache) s \<and>
       (\<forall>i. at s i = Idle) \<and> MemoryCache_Length (shared s) = 2"
proof -
  let ?c = "new_MemoryCache 600 1 :: nat MemoryCache"
  let ?s0 = "start_sys ?c"
  let ?s1 = "goto 0 (Set_Store ''a'' None) ?s0"
  let ?s2 = "goto 1 (Set_Store ''b'' None) ?s1"
  let ?s3 = "(goto 0 Idle ?s2)\<lparr>shared := MemoryCache_store 0 ?c ''a'' None\<rparr>"
  let ?s4 = "(goto 1 Idle ?s3)\<lparr>shared := MemoryCache_store 0 (shared ?s3) ''b'' None\<rparr>"
  have not_full: "\<not> MemoryCache_Full ?c"
    by (simp add: MemoryCache_Full_def MemoryCache_Length_def new_MemoryCache_def)
  have "cache_step 2 ?s0 ?s1" "cache_step 2 ?s1 ?s2"
    using cache_step.set_not_full [of 0 2 ?s0] cache_step.set_not_full [of 1 2 ?s1] not_full
    by (simp_all add: start_sys_def)
  moreover have "cache_step 2 ?s2 ?s3" "cache_step 2 ?s3 ?s4"
    using store_run [of 0 2 ?s2 "''a''" None 0] store_run [of 1 2 ?s3 "''b''" None 0]
    by (simp_all add: start_sys_def goto_def)
  ultimately have "cache_reachable 2 ?c ?s4"
    by (meson cache_reachable.intros)
  moreover have "\<forall>i. at ?s4 i = Idle" by (simp add: start_sys_def goto_def)
  moreover have "MemoryCache_Length (shared ?s4) = 2"
    by (simp add: MemoryCache_Length_def MemoryCache_store_def map_len_fmupd new_MemoryCache_def)
  ultimately show ?thesis by blast
qed

text \<open>A fresh entry can be lost: a \<open>Get\<close> that has seen an expired entry removes the key in a
  later critical section, without looking again, so it also removes an entry that another
  goroutine has stored in between and that still has its whole lifetime.\<close>

theorem concurrent_get_drops_fresh_entry:
  "\<exists>c s t. cache_reachable 2 (c :: nat MemoryCache) s \<and> at s 0 = Get_Remove ''a'' \<and>
       live_entries 1000 (shared s) ''a'' = Some (Some 2) \<and>
       cache_step 2 s t \<and> (\<forall>i. at t i = Idle) \<and> live_entries 1000 (shared t) ''a'' = None"
proof -
  let ?c = "snd (MemoryCache_Set 0 (new_MemoryCache 600 0) ''a'' (Some 1)) :: nat MemoryCache"
  let ?s0 = "start_sys ?c"
  let ?s1 = "goto 0 (Get_Remove ''a'') ?s0"
  let ?s2 = "?s1\<lparr>shared := snd (MemoryCache_Set 900 ?c ''a'' (Some 2))\<rparr>"
  let ?t = "goto 0 Idle (?s2\<lparr>shared := MemoryCache_Remove (shared ?s2) ''a''\<rparr>)"
  have old: "fmlookup (Backend ?c) ''a'' = Some \<lparr>Mesg_Msg = Some 1, Mesg_Expire = 600\<rparr>"
    by (simp add: MemoryCache_defs new_MemoryCache_def)
  have "cache_step 2 ?s0 ?s1"
    using cache_step.get_expired [of 0 2 ?s0 "''a''" _ 700] old by (simp add: start_sys_def)
  then have "cache_reachable 2 ?c ?s1"
    by (rule cache_reachable.step [OF cache_reachable.start])
  then have "cache_reachable 2 ?c ?s2"
    using cache_reachable_steps [OF set_run [of 1 2 ?s1 900 "''a''" "Some 2"]]
    by (simp add: start_sys_def)
  moreover have "cache_step 2 ?s2 ?t"
    by (rule cache_step.get_removes) (simp_all add: start_sys_def)
  moreover have "at ?s2 0 = Get_Remove ''a''" "\<forall>i. at ?t i = Idle"
    by (simp_all add: start_sys_def)
  moreover have "live_entries 1000 (shared ?s2) ''a'' = Some (Some 2)"
    "live_entries 1000 (shared ?t) ''a'' = None"
    by (simp_all add: MemoryCache_defs new_MemoryCache_def live_entries_def)
  ultimately show ?thesis by blast
qed

end
