(* ===== verification/Log.thy ===== *)
theory Log
  imports Go_Prelude
begin

text \<open>
  The logger of \<open>internal/log/log.go\<close>. The channel of messages is a list, the oldest first, with
  room for \<open>LOG_OUTPUT_BUFFER\<close> messages: a goroutine that sends to a full channel waits, which
  is \<open>None\<close> here. The loop of \<open>Run\<close> takes a message and hands it to every handler; the order in
  which it visits the handlers is an argument. What a handler writes is a list of lines, each
  with the place it goes to. \<open>os.OpenFile\<close> is an argument that says which paths can be opened.
  \<open>fmt.Sprintf\<close> is not modelled: the logging functions take the formatted text and put the
  prefix of their level in front of it, as \<open>Sprintf\<close> does with the prefix in the format.
\<close>

section \<open>The model\<close>

definition LOG_OUTPUT_BUFFER :: nat where
  "LOG_OUTPUT_BUFFER = 1024"

definition LevelDebug :: int where "LevelDebug = 0"
definition LevelInfo :: int where "LevelInfo = 1"
definition LevelNotice :: int where "LevelNotice = 2"
definition LevelWarn :: int where "LevelWarn = 3"
definition LevelError :: int where "LevelError = 4"

lemmas Level_defs = LevelDebug_def LevelInfo_def LevelNotice_def LevelWarn_def LevelError_def

record logMesg =
  Level :: int
  Mesg_text :: string

datatype sink = Stdout | To_file string

record ConsoleHandler =
  ch_level :: int
  ch_logger :: bool

record FileHandler =
  fh_level :: int
  fh_file :: string
  fh_logger :: "string option"

datatype LoggerHandler = Console ConsoleHandler | File FileHandler

type_synonym log_config = "(string, iface) fmap"

definition NewConsoleHandler :: ConsoleHandler where
  "NewConsoleHandler = \<lparr>ch_level = 0, ch_logger = False\<rparr>"

definition NewFileHandler :: FileHandler where
  "NewFileHandler = \<lparr>fh_level = 0, fh_file = [], fh_logger = None\<rparr>"

definition ConsoleHandler_Setup :: "ConsoleHandler \<Rightarrow> log_config \<Rightarrow> ConsoleHandler outcome" where
  "ConsoleHandler_Setup h config =
     (case fmlookup config ''level'' of
        None \<Rightarrow> Return (h\<lparr>ch_logger := True\<rparr>)
      | Some v \<Rightarrow> bind_outcome (assert_int (Some v))
          (\<lambda>level. Return (h\<lparr>ch_level := level, ch_logger := True\<rparr>)))"

definition ConsoleHandler_Write :: "ConsoleHandler \<Rightarrow> logMesg \<Rightarrow> (sink \<times> string) list outcome" where
  "ConsoleHandler_Write h lm =
     (if ch_level h \<le> Level lm then
        if ch_logger h then Return [(Stdout, Mesg_text lm)] else Panic ''nil logger''
      else Return [])"

text \<open>\<open>Setup\<close> of the file handler returns an error when the file can not be opened (\<open>False\<close>).\<close>

definition FileHandler_Setup ::
  "(string \<Rightarrow> bool) \<Rightarrow> FileHandler \<Rightarrow> log_config \<Rightarrow> (FileHandler \<times> bool) outcome" where
  "FileHandler_Setup can_open h config =
     bind_outcome
       (case fmlookup config ''level'' of
          None \<Rightarrow> Return h
        | Some v \<Rightarrow> bind_outcome (assert_int (Some v)) (\<lambda>level. Return (h\<lparr>fh_level := level\<rparr>)))
       (\<lambda>h'. case fmlookup config ''file'' of
          None \<Rightarrow> Return (h', True)
        | Some v \<Rightarrow> bind_outcome (assert_string (Some v))
            (\<lambda>f. if can_open f then Return (h'\<lparr>fh_file := f, fh_logger := Some f\<rparr>, True)
                 else Return (h'\<lparr>fh_file := f\<rparr>, False)))"

definition FileHandler_Write :: "FileHandler \<Rightarrow> logMesg \<Rightarrow> (sink \<times> string) list" where
  "FileHandler_Write h lm =
     (case fh_logger h of
        None \<Rightarrow> []
      | Some f \<Rightarrow> if fh_level h \<le> Level lm then [(To_file f, Mesg_text lm)] else [])"

definition handler_write :: "LoggerHandler \<Rightarrow> logMesg \<Rightarrow> (sink \<times> string) list outcome" where
  "handler_write h lm =
     (case h of Console c \<Rightarrow> ConsoleHandler_Write c lm | File f \<Rightarrow> Return (FileHandler_Write f lm))"

record GoDNSLogger =
  logger_level :: int
  mesgs :: "logMesg list"
  outputs :: "(string, LoggerHandler) fmap"

definition NewLogger :: GoDNSLogger where
  "NewLogger = \<lparr>logger_level = 0, mesgs = [], outputs = fmempty\<rparr>"

definition SetLogger ::
  "(string \<Rightarrow> bool) \<Rightarrow> GoDNSLogger \<Rightarrow> string \<Rightarrow> log_config \<Rightarrow> GoDNSLogger outcome" where
  "SetLogger can_open l handlerType config =
     bind_outcome
       (if handlerType = ''console'' then
          bind_outcome (ConsoleHandler_Setup NewConsoleHandler config) (\<lambda>h. Return (Console h))
        else if handlerType = ''file'' then
          bind_outcome (FileHandler_Setup can_open NewFileHandler config) (\<lambda>(h, ok). Return (File h))
        else Panic ''Unknown log handler.'')
       (\<lambda>handler. Return (l\<lparr>outputs := fmupd handlerType handler (outputs l)\<rparr>))"

definition SetLevel :: "GoDNSLogger \<Rightarrow> int \<Rightarrow> GoDNSLogger" where
  "SetLevel l n = l\<lparr>logger_level := n\<rparr>"

definition writeMesg :: "GoDNSLogger \<Rightarrow> string \<Rightarrow> int \<Rightarrow> GoDNSLogger option" where
  "writeMesg l mesg lev =
     (if logger_level l > lev then Some l
      else if length (mesgs l) < LOG_OUTPUT_BUFFER
        then Some (l\<lparr>mesgs := mesgs l @ [\<lparr>Level = lev, Mesg_text = mesg\<rparr>]\<rparr>)
      else None)"

definition Logger_Debug :: "GoDNSLogger \<Rightarrow> string \<Rightarrow> GoDNSLogger option" where
  "Logger_Debug l text = writeMesg l (''[DEBUG] '' @ text) LevelDebug"

definition Logger_Info :: "GoDNSLogger \<Rightarrow> string \<Rightarrow> GoDNSLogger option" where
  "Logger_Info l text = writeMesg l (''[INFO] '' @ text) LevelInfo"

definition Logger_Notice :: "GoDNSLogger \<Rightarrow> string \<Rightarrow> GoDNSLogger option" where
  "Logger_Notice l text = writeMesg l (''[NOTICE] '' @ text) LevelNotice"

definition Logger_Warn :: "GoDNSLogger \<Rightarrow> string \<Rightarrow> GoDNSLogger option" where
  "Logger_Warn l text = writeMesg l (''[WARN] '' @ text) LevelWarn"

definition Logger_Error :: "GoDNSLogger \<Rightarrow> string \<Rightarrow> GoDNSLogger option" where
  "Logger_Error l text = writeMesg l (''[ERROR] '' @ text) LevelError"

fun dispatch :: "LoggerHandler list \<Rightarrow> logMesg \<Rightarrow> (sink \<times> string) list outcome" where
  "dispatch [] lm = Return []"
| "dispatch (h # hs) lm =
     bind_outcome (handler_write h lm) (\<lambda>w. bind_outcome (dispatch hs lm) (\<lambda>ws. Return (w @ ws)))"

text \<open>One round of \<open>Run\<close>: nothing happens while the channel is empty.\<close>

definition Run_round :: "string list \<Rightarrow> GoDNSLogger \<Rightarrow> (GoDNSLogger \<times> (sink \<times> string) list) outcome" where
  "Run_round ord l =
     (case mesgs l of
        [] \<Rightarrow> Return (l, [])
      | lm # rest \<Rightarrow>
          bind_outcome (dispatch (List.map_filter (fmlookup (outputs l)) ord) lm)
            (\<lambda>ws. Return (l\<lparr>mesgs := rest\<rparr>, ws)))"

section \<open>The contract of a handler\<close>

text \<open>A handler that is set up never panics: it writes the messages from its level on to its
  sink, and nothing else.\<close>

locale log_handler =
  fixes emit :: "'h \<Rightarrow> logMesg \<Rightarrow> (sink \<times> string) list outcome"
    and ready :: "'h \<Rightarrow> bool"
    and threshold :: "'h \<Rightarrow> int"
    and sink :: "'h \<Rightarrow> sink"
  assumes write_ready: "ready h \<Longrightarrow> emit h lm =
      Return (if threshold h \<le> Level lm then [(sink h, Mesg_text lm)] else [])"
begin

lemma write_returns: "ready h \<Longrightarrow> \<exists>ws. emit h lm = Return ws"
  by (simp add: write_ready)

lemma write_own_sink: "ready h \<Longrightarrow> emit h lm = Return ws \<Longrightarrow>
    filter (\<lambda>(s, _). s = sink h) ws = map (\<lambda>lm. (sink h, Mesg_text lm)) (filter (\<lambda>lm. threshold h \<le> Level lm) [lm])"
  by (auto simp: write_ready)

lemma write_other_sink: "ready h \<Longrightarrow> emit h lm = Return ws \<Longrightarrow> s' \<noteq> sink h \<Longrightarrow>
    filter (\<lambda>(s, _). s = s') ws = []"
  by (auto simp: write_ready split: if_splits)

end

interpretation console: log_handler ConsoleHandler_Write ch_logger ch_level "\<lambda>_. Stdout"
  by unfold_locales (simp add: ConsoleHandler_Write_def)

interpretation to_file: log_handler "\<lambda>h lm. Return (FileHandler_Write h lm)"
  "\<lambda>h. fh_logger h \<noteq> None" fh_level "\<lambda>h. To_file (the (fh_logger h))"
  by unfold_locales (auto simp: FileHandler_Write_def)

fun handler_ready :: "LoggerHandler \<Rightarrow> bool" where
  "handler_ready (Console c) \<longleftrightarrow> ch_logger c"
| "handler_ready (File f) \<longleftrightarrow> fh_logger f \<noteq> None"

fun handler_threshold :: "LoggerHandler \<Rightarrow> int" where
  "handler_threshold (Console c) = ch_level c"
| "handler_threshold (File f) = fh_level f"

fun handler_sink :: "LoggerHandler \<Rightarrow> sink" where
  "handler_sink (Console c) = Stdout"
| "handler_sink (File f) = To_file (the (fh_logger f))"

interpretation handler: log_handler handler_write handler_ready handler_threshold handler_sink
proof
  fix h lm assume "handler_ready h"
  then show "handler_write h lm =
      Return (if handler_threshold h \<le> Level lm then [(handler_sink h, Mesg_text lm)] else [])"
    by (cases h) (simp_all add: handler_write_def console.write_ready to_file.write_ready)
qed

text \<open>A file handler without an open file is silent.\<close>

lemma handler_write_silent: "handler_write (File f) lm = Return []" if "fh_logger f = None"
  using that by (simp add: handler_write_def FileHandler_Write_def)

section \<open>Handlers that SetLogger registers\<close>

text \<open>\<open>SetLogger\<close> stores a handler under the name of its kind, a console handler with its logger.\<close>

fun entry_ok :: "string \<Rightarrow> LoggerHandler \<Rightarrow> bool" where
  "entry_ok name (Console c) \<longleftrightarrow> name = ''console'' \<and> ch_logger c"
| "entry_ok name (File f) \<longleftrightarrow> name = ''file''"

definition outputs_ok :: "GoDNSLogger \<Rightarrow> bool" where
  "outputs_ok l \<longleftrightarrow> (\<forall>name h. fmlookup (outputs l) name = Some h \<longrightarrow> entry_ok name h)"

lemma outputs_okD: "outputs_ok l \<Longrightarrow> fmlookup (outputs l) name = Some h \<Longrightarrow> entry_ok name h"
  by (simp add: outputs_ok_def)

lemma Console_Setup_ready: "ConsoleHandler_Setup h config = Return h' \<Longrightarrow> ch_logger h'"
  by (auto simp: ConsoleHandler_Setup_def bind_outcome_Return_iff split: option.splits)

lemma SetLogger_entry:
  assumes "SetLogger can_open l handlerType config = Return l'"
  shows "\<exists>h. entry_ok handlerType h \<and> l' = l\<lparr>outputs := fmupd handlerType h (outputs l)\<rparr>"
proof -
  from assms obtain h where h: "l' = l\<lparr>outputs := fmupd handlerType h (outputs l)\<rparr>"
    and cases: "handlerType = ''console'' \<and> (\<exists>c. h = Console c \<and> ch_logger c) \<or>
      handlerType = ''file'' \<and> (\<exists>f. h = File f)"
    by (fastforce simp: SetLogger_def bind_outcome_Return_iff split: if_splits prod.splits
        dest: Console_Setup_ready)
  from cases have "entry_ok handlerType h" by auto
  with h show ?thesis by blast
qed

lemma outputs_ok_SetLogger:
  "outputs_ok l \<Longrightarrow> SetLogger can_open l handlerType config = Return l' \<Longrightarrow> outputs_ok l'"
  by (drule SetLogger_entry) (auto simp: outputs_ok_def split: if_splits)

lemma outputs_ok_NewLogger: "outputs_ok NewLogger"
  by (simp add: outputs_ok_def NewLogger_def)

lemma entry_write_total: "entry_ok name h \<Longrightarrow> \<exists>ws. handler_write h lm = Return ws"
  by (cases h) (auto simp: handler_write_def console.write_returns)

text \<open>A handler writes to its own sink only, and a name determines the kind of its handler.\<close>

lemma entry_write_other:
  "entry_ok name h \<Longrightarrow> entry_ok name' h' \<Longrightarrow> name \<noteq> name' \<Longrightarrow> handler_ready h' \<Longrightarrow>
     handler_write h lm = Return ws \<Longrightarrow> filter (\<lambda>(s, _). s = handler_sink h') ws = []"
  by (cases h; cases h')
     (auto simp: handler_write_def ConsoleHandler_Write_def FileHandler_Write_def
        split: if_splits option.splits)

lemma dispatch_total:
  "\<forall>h \<in> set hs. \<exists>name. entry_ok name h \<Longrightarrow> \<exists>ws. dispatch hs lm = Return ws"
proof (induction hs)
  case (Cons h hs)
  then obtain ws name where "dispatch hs lm = Return ws" "entry_ok name h" by auto
  moreover obtain w where "handler_write h lm = Return w"
    using entry_write_total [OF \<open>entry_ok name h\<close>] by blast
  ultimately show ?case by simp
qed simp

section \<open>Delivery\<close>

abbreviation handlers_in :: "string list \<Rightarrow> GoDNSLogger \<Rightarrow> LoggerHandler list" where
  "handlers_in ord l \<equiv> List.map_filter (fmlookup (outputs l)) ord"

abbreviation to_sink :: "sink \<Rightarrow> (sink \<times> string) list \<Rightarrow> (sink \<times> string) list" where
  "to_sink s ws \<equiv> filter (\<lambda>(s', _). s' = s) ws"

definition lines_of :: "LoggerHandler \<Rightarrow> logMesg list \<Rightarrow> (sink \<times> string) list" where
  "lines_of h lms =
     map (\<lambda>lm. (handler_sink h, Mesg_text lm)) (filter (\<lambda>lm. handler_threshold h \<le> Level lm) lms)"

lemma lines_of_append: "lines_of h (xs @ ys) = lines_of h xs @ lines_of h ys"
  by (simp add: lines_of_def)

lemma dispatch_absent:
  "outputs_ok l \<Longrightarrow> fmlookup (outputs l) name = Some h \<Longrightarrow> handler_ready h \<Longrightarrow> name \<notin> set ord \<Longrightarrow>
     dispatch (handlers_in ord l) lm = Return ws \<Longrightarrow> to_sink (handler_sink h) ws = []"
proof (induction ord arbitrary: ws)
  case (Cons n ord)
  show ?case
  proof (cases "fmlookup (outputs l) n")
    case (Some h')
    with Cons.prems obtain w ws' where "handler_write h' lm = Return w"
      "dispatch (handlers_in ord l) lm = Return ws'" "ws = w @ ws'"
      by (auto simp: List.map_filter_simps bind_outcome_Return_iff)
    then show ?thesis
      using Cons Some entry_write_other [of n h' name h lm w]
      by (auto simp: outputs_okD)
  qed (use Cons in \<open>simp add: List.map_filter_simps\<close>)
qed (simp add: List.map_filter_simps)

lemma dispatch_present:
  "outputs_ok l \<Longrightarrow> fmlookup (outputs l) name = Some h \<Longrightarrow> handler_ready h \<Longrightarrow>
     distinct ord \<Longrightarrow> name \<in> set ord \<Longrightarrow> dispatch (handlers_in ord l) lm = Return ws \<Longrightarrow>
     to_sink (handler_sink h) ws = lines_of h [lm]"
proof (induction ord arbitrary: ws)
  case (Cons n ord)
  show ?case
  proof (cases "fmlookup (outputs l) n")
    case (Some h')
    with Cons.prems obtain w ws' where w: "handler_write h' lm = Return w"
      "dispatch (handlers_in ord l) lm = Return ws'" "ws = w @ ws'"
      by (auto simp: List.map_filter_simps bind_outcome_Return_iff)
    show ?thesis
    proof (cases "n = name")
      case True
      with Cons.prems Some have "h' = h" "name \<notin> set ord" by auto
      with w Cons.prems show ?thesis
        using dispatch_absent [of l name h ord lm ws'] handler.write_own_sink [of h lm w]
        by (simp add: lines_of_def)
    next
      case False
      with w Cons Some show ?thesis
        using entry_write_other [of n h' name h lm w] by (simp add: outputs_okD)
    qed
  qed (use Cons in \<open>auto simp: List.map_filter_simps\<close>)
qed simp

text \<open>
  The logger at work: any goroutine sends a message (which waits while the channel is full), and
  \<open>Run\<close> takes the next one and hands it to the handlers. The messages sent so far and the lines
  written so far are recorded.
\<close>

inductive log_reachable ::
  "GoDNSLogger \<Rightarrow> GoDNSLogger \<Rightarrow> logMesg list \<Rightarrow> (sink \<times> string) list \<Rightarrow> bool" for l0 where
  start: "log_reachable l0 l0 [] []"
| send: "log_reachable l0 l sent out \<Longrightarrow> writeMesg l mesg lev = Some l' \<Longrightarrow>
    log_reachable l0 l' (sent @ [\<lparr>Level = lev, Mesg_text = mesg\<rparr>]) out"
| round: "log_reachable l0 l sent out \<Longrightarrow> range_order ord (outputs l) \<Longrightarrow>
    Run_round ord l = Return (l', ws) \<Longrightarrow> log_reachable l0 l' sent (out @ ws)"

lemma writeMesg_cases:
  assumes "writeMesg l mesg lev = Some l'"
  obtains "lev < logger_level l" "l' = l"
  | "logger_level l \<le> lev" "length (mesgs l) < LOG_OUTPUT_BUFFER"
    "l' = l\<lparr>mesgs := mesgs l @ [\<lparr>Level = lev, Mesg_text = mesg\<rparr>]\<rparr>"
  using assms by (auto simp: writeMesg_def split: if_splits)

lemma Run_round_cases:
  assumes "Run_round ord l = Return (l', ws)"
  obtains "mesgs l = []" "l' = l" "ws = []"
  | lm rest where "mesgs l = lm # rest" "l' = l\<lparr>mesgs := rest\<rparr>" "dispatch (handlers_in ord l) lm = Return ws"
  using assms by (auto simp: Run_round_def bind_outcome_Return_iff split: list.splits)

lemma Run_round_total:
  assumes "outputs_ok l"
  shows "\<exists>l' ws. Run_round ord l = Return (l', ws) \<and> mesgs l' = drop 1 (mesgs l)"
proof (cases "mesgs l")
  case (Cons lm rest)
  have "\<forall>h \<in> set (handlers_in ord l). \<exists>name. entry_ok name h"
    using assms by (fastforce simp: List.map_filter_def dest: outputs_okD)
  then obtain ws where "dispatch (handlers_in ord l) lm = Return ws"
    using dispatch_total by blast
  with Cons show ?thesis by (simp add: Run_round_def)
qed (simp add: Run_round_def)

lemma log_reachable_config:
  "log_reachable l0 l sent out \<Longrightarrow> outputs l = outputs l0 \<and> logger_level l = logger_level l0"
  by (induction rule: log_reachable.induct) (auto elim!: writeMesg_cases Run_round_cases)

lemma log_reachable_bound:
  "log_reachable l0 l sent out \<Longrightarrow> mesgs l0 = [] \<Longrightarrow> length (mesgs l) \<le> LOG_OUTPUT_BUFFER"
  by (induction rule: log_reachable.induct) (auto elim!: writeMesg_cases Run_round_cases)

definition accepted :: "GoDNSLogger \<Rightarrow> logMesg list \<Rightarrow> logMesg list" where
  "accepted l sent = filter (\<lambda>lm. logger_level l \<le> Level lm) sent"

lemma log_reachable_delivery:
  assumes "log_reachable l0 l sent out" and "mesgs l0 = []" and "outputs_ok l0"
    and h: "fmlookup (outputs l0) name = Some h" "handler_ready h"
  shows "\<exists>ds. accepted l0 sent = ds @ mesgs l \<and> to_sink (handler_sink h) out = lines_of h ds"
  using assms(1)
proof induction
  case start
  then show ?case using assms(2) by (simp add: accepted_def lines_of_def)
next
  case (send l sent out mesg lev l')
  then show ?case
    using log_reachable_config [OF send.hyps(1)]
    by (auto simp: accepted_def elim!: writeMesg_cases)
next
  case (round l sent out ord l' ws)
  then obtain ds where d: "accepted l0 sent = ds @ mesgs l"
    "to_sink (handler_sink h) out = lines_of h ds" by blast
  have conf: "outputs l = outputs l0" using log_reachable_config [OF round.hyps(1)] by simp
  then have ok: "outputs_ok l" "fmlookup (outputs l) name = Some h"
    using assms(3) h by (simp_all add: outputs_ok_def)
  have ord: "distinct ord" "name \<in> set ord"
    using round.hyps(2) range_order_set [OF round.hyps(2)] ok(2)
    by (auto simp: range_order_def fmdomI)
  from round.hyps(3) show ?case
  proof (cases rule: Run_round_cases)
    case (2 lm rest)
    with d dispatch_present [OF ok h(2) ord, of lm ws] show ?thesis
      by (auto intro!: exI [of _ "ds @ [lm]"] simp: lines_of_append)
  qed (use d in auto)
qed

section \<open>Properties\<close>

text \<open>C20: No line is lost, repeated or reordered: at every moment of a run of the logger, what a
  handler has written is exactly the messages accepted so far from its level on, in the order in
  which they were sent, but for those that still wait in the channel, which holds at most
  \<open>LOG_OUTPUT_BUFFER\<close> messages.\<close>

theorem log_delivery:
  assumes "log_reachable l0 l sent out" and "mesgs l0 = []" and "outputs_ok l0"
    and "fmlookup (outputs l0) name = Some h" and "handler_ready h"
  shows "(\<exists>delivered. accepted l0 sent = delivered @ mesgs l \<and>
            filter (\<lambda>(s, _). s = handler_sink h) out =
              map (\<lambda>lm. (handler_sink h, Mesg_text lm))
                (filter (\<lambda>lm. handler_threshold h \<le> Level lm) delivered)) \<and>
         length (mesgs l) \<le> LOG_OUTPUT_BUFFER"
  using log_reachable_delivery [OF assms] log_reachable_bound [OF assms(1,2)]
  unfolding lines_of_def by blast

definition console_logger :: GoDNSLogger where
  "console_logger = \<lparr>logger_level = LevelInfo, mesgs = [],
     outputs = fmap_of_list [(''console'', Console \<lparr>ch_level = LevelWarn, ch_logger = True\<rparr>)]\<rparr>"

theorem log_delivery_witness:
  "\<exists>l out. log_reachable console_logger l
     [\<lparr>Level = LevelDebug, Mesg_text = ''a''\<rparr>, \<lparr>Level = LevelError, Mesg_text = ''b''\<rparr>] out \<and>
     mesgs l = [] \<and> out = [(Stdout, ''b'')]"
proof -
  let ?h = "Console \<lparr>ch_level = LevelWarn, ch_logger = True\<rparr>"
  let ?l = "console_logger\<lparr>mesgs := [\<lparr>Level = LevelError, Mesg_text = ''b''\<rparr>]\<rparr>"
  let ?sent = "[\<lparr>Level = LevelDebug, Mesg_text = ''a''\<rparr>, \<lparr>Level = LevelError, Mesg_text = ''b''\<rparr>]"
  have "log_reachable console_logger console_logger ([] @ [\<lparr>Level = LevelDebug, Mesg_text = ''a''\<rparr>]) []"
    by (rule send [OF start]) (simp add: writeMesg_def console_logger_def Level_defs)
  then have "log_reachable console_logger ?l
      (([] @ [\<lparr>Level = LevelDebug, Mesg_text = ''a''\<rparr>]) @ [\<lparr>Level = LevelError, Mesg_text = ''b''\<rparr>]) []"
    by (rule send) (simp add: writeMesg_def console_logger_def Level_defs LOG_OUTPUT_BUFFER_def)
  then have "log_reachable console_logger console_logger ?sent ([] @ [(Stdout, ''b'')])"
    by (intro round [of _ ?l ?sent "[]" "[''console'']"])
       (simp_all add: Run_round_def console_logger_def range_order_def List.map_filter_simps
          handler_write_def ConsoleHandler_Write_def Level_defs)
  then have r: "log_reachable console_logger console_logger ?sent [(Stdout, ''b'')]" by simp
  have c: "mesgs console_logger = []" "outputs_ok console_logger"
    "fmlookup (outputs console_logger) ''console'' = Some ?h" "handler_ready ?h"
    by (auto simp: console_logger_def outputs_ok_def split: if_splits)
  from log_delivery [OF r c] r c(1) show ?thesis by blast
qed

text \<open>Logging blocks a goroutine exactly when its message passes the level and the channel is
  full, and the loop of \<open>Run\<close> never panics on the handlers that \<open>SetLogger\<close> registers and takes a
  message in every round, so a waiting goroutine can go on after one round.\<close>

theorem log_progress:
  assumes "outputs_ok l"
  shows "(writeMesg l mesg lev = None \<longleftrightarrow>
            logger_level l \<le> lev \<and> LOG_OUTPUT_BUFFER \<le> length (mesgs l)) \<and>
         (\<exists>l' ws. Run_round ord l = Return (l', ws) \<and> mesgs l' = drop 1 (mesgs l) \<and>
            (length (mesgs l) \<le> LOG_OUTPUT_BUFFER \<longrightarrow> writeMesg l' mesg lev \<noteq> None))"
proof -
  obtain l' ws where "Run_round ord l = Return (l', ws)" "mesgs l' = drop 1 (mesgs l)"
    using Run_round_total [OF assms] by blast
  then show ?thesis by (auto simp: writeMesg_def LOG_OUTPUT_BUFFER_def)
qed

theorem log_progress_witness:
  "\<exists>l' ws. Run_round [] NewLogger = Return (l', ws) \<and> writeMesg l' ''m'' LevelError \<noteq> None"
  using log_progress [OF outputs_ok_NewLogger, of "''m''" LevelError "[]"]
  by (auto simp: NewLogger_def)

end
