(* ===== verification/Settings.thy ===== *)
theory Settings
  imports Log
begin

text \<open>
  The configuration of \<open>settings.go\<close>: one record per struct, the table of log levels, \<open>LogLevel\<close>
  with its panic, and what \<open>init\<close> does after the flags are parsed. Parsing of the flags and of the
  TOML file are library code: the decoded settings and the flag \<open>-v\<close> are arguments.
\<close>

record ResolvSettings =
  Timeout :: int
  Interval :: int
  SetEDNS0 :: bool
  ServerListFile :: string
  ResolvFile :: string
  DNSSECEnable :: bool
  TrustAnchorFile :: string
  LoadBalanceEnable :: bool

record DNSServerSettings =
  Host :: string
  Port :: int

record RedisSettings =
  Addr :: string
  Password :: string
  DB :: int

record MemcacheSettings =
  Servers :: "string list"

record LogSettings =
  log_Stdout :: bool
  log_File :: string
  log_Level :: string

record CacheSettings =
  cache_Backend :: string
  cache_Expire :: int
  cache_Maxcount :: int

record HostsSettings =
  hosts_Enable :: bool
  HostsFile :: string
  hosts_RedisEnable :: bool
  hosts_RedisKey :: string
  hosts_TTL :: "32 word"
  hosts_RefreshInterval :: "32 word"

record BlocklistSettings =
  bl_Enable :: bool
  bl_Backend :: string
  bl_File :: string
  bl_WhitelistFile :: string
  bl_RefreshInterval :: int
  bl_RedisEnable :: bool
  bl_RedisKey :: string
  bl_RedisWhitelistKey :: string
  bl_TTL :: "32 word"

record Settings =
  Version :: string
  Debug :: bool
  Server_settings :: DNSServerSettings
  ResolvConfig :: ResolvSettings
  Redis :: RedisSettings
  Memcache :: MemcacheSettings
  Log_settings :: LogSettings
  Cache_settings :: CacheSettings
  Hosts_settings :: HostsSettings
  Blocklist_settings :: BlocklistSettings

definition LogLevelMap :: "(string, int) fmap" where
  "LogLevelMap = fmap_of_list
     [(''DEBUG'', LevelDebug), (''INFO'', LevelInfo), (''NOTICE'', LevelNotice),
      (''WARN'', LevelWarn), (''ERROR'', LevelError)]"

definition LogLevel :: "LogSettings \<Rightarrow> int outcome" where
  "LogLevel ls =
     (case fmlookup LogLevelMap (log_Level ls) of
        None \<Rightarrow> Panic (''config error: invalid log level '' @ [CHR 0x27] @ log_Level ls @ [CHR 0x27])
      | Some level \<Rightarrow> Return level)"

text \<open>\<open>init\<close>: \<open>None\<close> is the exit of the program when the file can not be decoded.\<close>

definition init_settings :: "bool \<Rightarrow> Settings option \<Rightarrow> Settings option" where
  "init_settings verbose decoded =
     (case decoded of
        None \<Rightarrow> None
      | Some s \<Rightarrow>
          Some (if verbose then s\<lparr>Log_settings := (Log_settings s)\<lparr>log_Level := ''DEBUG''\<rparr>\<rparr> else s))"

lemma LogLevel_if:
  "LogLevel ls =
     (if log_Level ls = ''DEBUG'' then Return 0
      else if log_Level ls = ''INFO'' then Return 1
      else if log_Level ls = ''NOTICE'' then Return 2
      else if log_Level ls = ''WARN'' then Return 3
      else if log_Level ls = ''ERROR'' then Return 4
      else Panic (''config error: invalid log level '' @ [CHR 0x27] @ log_Level ls @ [CHR 0x27]))"
  by (simp add: LogLevel_def LogLevelMap_def fmlookup_of_list Level_defs
        eq_commute [of _ "log_Level ls"])

end
