(* ===== verification/Blocklist.thy ===== *)
theory Blocklist
  imports Go_Prelude
begin

text \<open>
  The blocklist of \<open>features/blocklist\<close>: the file backend (\<open>file.go\<close>), the Redis backend
  (\<open>redis.go\<close>) and the module that joins them (\<open>blocklist.go\<close>). A \<open>map[string]struct{}\<close> is a
  finite set. The Redis client is an argument: what \<open>SMembers\<close> returns for a key, \<open>None\<close> for an
  error. The goroutines that \<open>NewBlocklist\<close> starts are part of its result, each with the interval
  of its ticker; \<open>time.NewTicker\<close> panics unless that is positive. The unused \<open>sync.Map\<close> fields of
  the struct \<open>block\<close> are left out.

  Both backends satisfy the contract \<open>domain_list\<close>: after a refresh the answers depend on the
  source alone.
\<close>

section \<open>File backend\<close>

record fileBlocklist =
  fb_blacklist :: "string fset"
  fb_whitelist :: "string fset"
  blacklistFile :: string
  whitelistFile :: string

definition NewFileBlocklist :: "string \<Rightarrow> string \<Rightarrow> fileBlocklist" where
  "NewFileBlocklist black white =
     \<lparr>fb_blacklist = {||}, fb_whitelist = {||}, blacklistFile = black, whitelistFile = white\<rparr>"

fun load_lines :: "string list \<Rightarrow> string fset \<Rightarrow> string fset" where
  "load_lines [] domainMap = domainMap"
| "load_lines (text # texts) domainMap =
     (let line = TrimSpace text in
      if line = [] \<or> HasPrefix line ''#'' then load_lines texts domainMap
      else load_lines texts (finsert line domainMap))"

definition loadFromFile :: "filesystem \<Rightarrow> string \<Rightarrow> string fset \<Rightarrow> string fset" where
  "loadFromFile fs filename domainMap =
     (case fs filename of
        None \<Rightarrow> domainMap
      | Some f \<Rightarrow> load_lines (fst (Scanner f)) domainMap)"

definition fileBlocklist_Refresh :: "filesystem \<Rightarrow> fileBlocklist \<Rightarrow> fileBlocklist" where
  "fileBlocklist_Refresh fs b =
     b\<lparr>fb_blacklist := (if blacklistFile b \<noteq> [] then loadFromFile fs (blacklistFile b) {||} else {||}),
       fb_whitelist := (if whitelistFile b \<noteq> [] then loadFromFile fs (whitelistFile b) {||} else {||})\<rparr>"

definition fileBlocklist_IsBlocked :: "fileBlocklist \<Rightarrow> string \<Rightarrow> bool" where
  "fileBlocklist_IsBlocked b domain \<longleftrightarrow> domain |\<in>| fb_blacklist b"

definition fileBlocklist_IsAllowed :: "fileBlocklist \<Rightarrow> string \<Rightarrow> bool" where
  "fileBlocklist_IsAllowed b domain \<longleftrightarrow> domain |\<in>| fb_whitelist b"

section \<open>Redis backend\<close>

record redis_options =
  opt_Addr :: string
  opt_Password :: string
  opt_DB :: int

record redisBlocklist =
  rb_blacklist :: "string fset"
  rb_whitelist :: "string fset"
  rb_client :: redis_options
  blacklistKey :: string
  whitelistKey :: string

type_synonym smembers = "string \<Rightarrow> string list option"

text \<open>The result is a pointer: \<open>None\<close> is the \<open>nil\<close> returned when the settings are not a map.\<close>

definition NewRedisBlocklist :: "iface \<Rightarrow> string \<Rightarrow> string \<Rightarrow> redisBlocklist option outcome" where
  "NewRedisBlocklist redisSettings black white =
     (case redisSettings of
        IMap rs \<Rightarrow>
          bind_outcome (assert_string (map_of rs ''host'')) (\<lambda>host.
          bind_outcome (assert_string (map_of rs ''port'')) (\<lambda>port.
          bind_outcome (assert_string (map_of rs ''password'')) (\<lambda>password.
          bind_outcome (assert_int64 (map_of rs ''db'')) (\<lambda>db.
          Return (Some
            \<lparr>rb_blacklist = {||}, rb_whitelist = {||},
             rb_client = \<lparr>opt_Addr = host @ '':'' @ port, opt_Password = password, opt_DB = db\<rparr>,
             blacklistKey = black, whitelistKey = white\<rparr>)))))
      | _ \<Rightarrow> Return None)"

fun load_members :: "string list \<Rightarrow> string fset \<Rightarrow> string fset" where
  "load_members [] domainMap = domainMap"
| "load_members (domain # members) domainMap = load_members members (finsert (ToLower domain) domainMap)"

definition loadFromRedis :: "smembers \<Rightarrow> string \<Rightarrow> string fset \<Rightarrow> string fset" where
  "loadFromRedis redis key domainMap =
     (case redis key of None \<Rightarrow> domainMap | Some members \<Rightarrow> load_members members domainMap)"

definition redisBlocklist_Refresh :: "smembers \<Rightarrow> redisBlocklist \<Rightarrow> redisBlocklist" where
  "redisBlocklist_Refresh redis b =
     b\<lparr>rb_blacklist := (if blacklistKey b \<noteq> [] then loadFromRedis redis (blacklistKey b) {||} else {||}),
       rb_whitelist := (if whitelistKey b \<noteq> [] then loadFromRedis redis (whitelistKey b) {||} else {||})\<rparr>"

definition redisBlocklist_IsBlocked :: "redisBlocklist \<Rightarrow> string \<Rightarrow> bool" where
  "redisBlocklist_IsBlocked b domain \<longleftrightarrow> domain |\<in>| rb_blacklist b"

definition redisBlocklist_IsAllowed :: "redisBlocklist \<Rightarrow> string \<Rightarrow> bool" where
  "redisBlocklist_IsAllowed b domain \<longleftrightarrow> domain |\<in>| rb_whitelist b"

section \<open>The module\<close>

record Config =
  Enable :: bool
  Config_Backend :: string
  Config_File :: string
  WhitelistFile :: string
  RefreshInterval :: int
  RedisEnable :: bool
  RedisKey :: string
  RedisWhitelistKey :: string
  Config_RedisSettings :: iface

record block =
  refreshInterval :: duration
  block_file :: "fileBlocklist option"
  block_redis :: "redisBlocklist option"

datatype refresher = Refresh_file duration | Refresh_redis duration

text \<open>The zero value \<open>&block{}\<close>.\<close>

definition empty_block :: block where
  "empty_block = \<lparr>refreshInterval = 0, block_file = None, block_redis = None\<rparr>"

definition use_file :: "Config \<Rightarrow> bool" where
  "use_file c \<longleftrightarrow> Config_Backend c = ''file'' \<or> Config_File c \<noteq> [] \<or> WhitelistFile c \<noteq> []"

definition use_redis :: "Config \<Rightarrow> bool" where
  "use_redis c \<longleftrightarrow> Config_Backend c = ''redis'' \<or> RedisEnable c"

definition start_file :: "filesystem \<Rightarrow> Config \<Rightarrow> block \<Rightarrow> block \<times> refresher list" where
  "start_file fs c b =
     (if use_file c then
        (b\<lparr>block_file :=
           Some (fileBlocklist_Refresh fs (NewFileBlocklist (Config_File c) (WhitelistFile c)))\<rparr>,
         [Refresh_file (refreshInterval b)])
      else (b, []))"

definition start_redis :: "smembers \<Rightarrow> Config \<Rightarrow> block \<Rightarrow> (block \<times> refresher list) outcome" where
  "start_redis redis c b =
     (if use_redis c then
        bind_outcome (NewRedisBlocklist (Config_RedisSettings c) (RedisKey c) (RedisWhitelistKey c))
          (\<lambda>r. case r of
             None \<Rightarrow> Panic ''nil pointer dereference''
           | Some rb \<Rightarrow>
               Return (b\<lparr>block_redis := Some (redisBlocklist_Refresh redis rb)\<rparr>,
                       [Refresh_redis (refreshInterval b)]))
      else Return (b, []))"

definition NewBlocklist :: "filesystem \<Rightarrow> smembers \<Rightarrow> Config \<Rightarrow> (block \<times> refresher list) outcome" where
  "NewBlocklist fs redis c =
     (if \<not> Enable c then Return (empty_block, [])
      else
        let (b, gs) = start_file fs c (empty_block\<lparr>refreshInterval := seconds (RefreshInterval c)\<rparr>)
        in bind_outcome (start_redis redis c b) (\<lambda>(b', gs'). Return (b', gs @ gs')))"

definition NewTicker :: "duration \<Rightarrow> unit outcome" where
  "NewTicker d =
     (if d \<le> 0 then Panic ''non-positive interval for NewTicker'' else Return ())"

text \<open>A round of a refreshing goroutine, on each tick of its ticker.\<close>

fun refresher_tick :: "filesystem \<Rightarrow> smembers \<Rightarrow> refresher \<Rightarrow> block \<Rightarrow> block" where
  "refresher_tick fs redis (Refresh_file d) b =
     b\<lparr>block_file := map_option (fileBlocklist_Refresh fs) (block_file b)\<rparr>"
| "refresher_tick fs redis (Refresh_redis d) b =
     b\<lparr>block_redis := map_option (redisBlocklist_Refresh redis) (block_redis b)\<rparr>"

fun refresher_interval :: "refresher \<Rightarrow> duration" where
  "refresher_interval (Refresh_file d) = d"
| "refresher_interval (Refresh_redis d) = d"

definition IsAllowed :: "block \<Rightarrow> string \<Rightarrow> bool" where
  "IsAllowed b domain \<longleftrightarrow>
     (case block_file b of Some f \<Rightarrow> fileBlocklist_IsAllowed f domain | None \<Rightarrow> False) \<or>
     (case block_redis b of Some r \<Rightarrow> redisBlocklist_IsAllowed r domain | None \<Rightarrow> False)"

definition IsBlocked :: "block \<Rightarrow> string \<Rightarrow> bool" where
  "IsBlocked b domain \<longleftrightarrow>
     (if IsAllowed b domain then False
      else (case block_file b of Some f \<Rightarrow> fileBlocklist_IsBlocked f domain | None \<Rightarrow> False) \<or>
           (case block_redis b of Some r \<Rightarrow> redisBlocklist_IsBlocked r domain | None \<Rightarrow> False))"

section \<open>The contract of a backend\<close>

text \<open>
  A backend answers from a source: the environment (the file system, or the Redis server) gives
  the set of blocked and the set of allowed domains, and a refresh makes the answers those of
  the source.
\<close>

locale domain_list =
  fixes refresh :: "'e \<Rightarrow> 'b \<Rightarrow> 'b"
    and blocked :: "'b \<Rightarrow> string \<Rightarrow> bool"
    and allowed :: "'b \<Rightarrow> string \<Rightarrow> bool"
    and black_source :: "'e \<Rightarrow> 'b \<Rightarrow> string set"
    and white_source :: "'e \<Rightarrow> 'b \<Rightarrow> string set"
  assumes blocked_refresh: "blocked (refresh e b) d \<longleftrightarrow> d \<in> black_source e b"
    and allowed_refresh: "allowed (refresh e b) d \<longleftrightarrow> d \<in> white_source e b"
    and black_stable: "black_source e' (refresh e b) = black_source e' b"
    and white_stable: "white_source e' (refresh e b) = white_source e' b"
begin

lemma no_stale_entries:
  "blocked (refresh e' (refresh e b)) d = blocked (refresh e' b) d"
  "allowed (refresh e' (refresh e b)) d = allowed (refresh e' b) d"
  by (simp_all add: blocked_refresh allowed_refresh black_stable white_stable)

lemma source_run:
  "black_source e' (fold refresh es b) = black_source e' b"
  "white_source e' (fold refresh es b) = white_source e' b"
  by (induction es arbitrary: b) (simp_all add: black_stable white_stable)

lemma last_refresh_decides:
  "blocked (refresh e (fold refresh es b)) d \<longleftrightarrow> d \<in> black_source e b"
  "allowed (refresh e (fold refresh es b)) d \<longleftrightarrow> d \<in> white_source e b"
  by (simp_all add: blocked_refresh allowed_refresh source_run)

end

text \<open>The domains of a list file: its lines without surrounding space, but for empty lines and
  comments.\<close>

definition entry_line :: "string \<Rightarrow> bool" where
  "entry_line line \<longleftrightarrow> line \<noteq> [] \<and> \<not> HasPrefix line ''#''"

definition file_domains :: "filesystem \<Rightarrow> string \<Rightarrow> string set" where
  "file_domains fs name =
     (if name = [] then {}
      else case fs name of
        None \<Rightarrow> {}
      | Some f \<Rightarrow> {d \<in> TrimSpace ` set (fst (Scanner f)). entry_line d})"

definition redis_domains :: "smembers \<Rightarrow> string \<Rightarrow> string set" where
  "redis_domains redis key =
     (if key = [] then {} else case redis key of None \<Rightarrow> {} | Some ms \<Rightarrow> ToLower ` set ms)"

lemma fset_load_lines:
  "fset (load_lines texts m) = fset m \<union> {d \<in> TrimSpace ` set texts. entry_line d}"
  by (induction texts m rule: load_lines.induct) (auto simp: Let_def entry_line_def)

lemma fset_load_members: "fset (load_members ms m) = fset m \<union> ToLower ` set ms"
  by (induction ms m rule: load_members.induct) auto

interpretation file_list: domain_list fileBlocklist_Refresh fileBlocklist_IsBlocked
  fileBlocklist_IsAllowed "\<lambda>fs b. file_domains fs (blacklistFile b)"
  "\<lambda>fs b. file_domains fs (whitelistFile b)"
  by unfold_locales
     (auto simp: fileBlocklist_Refresh_def fileBlocklist_IsBlocked_def fileBlocklist_IsAllowed_def
        file_domains_def loadFromFile_def fset_load_lines split: option.splits)

interpretation redis_list: domain_list redisBlocklist_Refresh redisBlocklist_IsBlocked
  redisBlocklist_IsAllowed "\<lambda>redis b. redis_domains redis (blacklistKey b)"
  "\<lambda>redis b. redis_domains redis (whitelistKey b)"
  by unfold_locales
     (auto simp: redisBlocklist_Refresh_def redisBlocklist_IsBlocked_def redisBlocklist_IsAllowed_def
        redis_domains_def loadFromRedis_def fset_load_members split: option.splits)

section \<open>The module over its backends\<close>

definition black_domains :: "filesystem \<Rightarrow> smembers \<Rightarrow> Config \<Rightarrow> string set" where
  "black_domains fs redis c =
     file_domains fs (Config_File c) \<union> (if use_redis c then redis_domains redis (RedisKey c) else {})"

definition white_domains :: "filesystem \<Rightarrow> smembers \<Rightarrow> Config \<Rightarrow> string set" where
  "white_domains fs redis c =
     file_domains fs (WhitelistFile c) \<union>
     (if use_redis c then redis_domains redis (RedisWhitelistKey c) else {})"

text \<open>A block set up from a configuration: each backend is there exactly when it is configured,
  and is the refreshed form of a backend with the configured files or keys.\<close>

definition set_up :: "filesystem \<Rightarrow> smembers \<Rightarrow> Config \<Rightarrow> block \<Rightarrow> bool" where
  "set_up fs redis c b \<longleftrightarrow>
     (case block_file b of
        None \<Rightarrow> Config_File c = [] \<and> WhitelistFile c = []
      | Some f \<Rightarrow> \<exists>f'. f = fileBlocklist_Refresh fs f' \<and>
          blacklistFile f' = Config_File c \<and> whitelistFile f' = WhitelistFile c) \<and>
     (case block_redis b of
        None \<Rightarrow> \<not> use_redis c
      | Some r \<Rightarrow> use_redis c \<and> (\<exists>r'. r = redisBlocklist_Refresh redis r' \<and>
          blacklistKey r' = RedisKey c \<and> whitelistKey r' = RedisWhitelistKey c))"

lemma NewRedisBlocklist_keys:
  "NewRedisBlocklist v black white = Return (Some r) \<Longrightarrow> blacklistKey r = black \<and> whitelistKey r = white"
  by (cases v) (auto simp: NewRedisBlocklist_def bind_outcome_Return_iff)

lemma start_redis_file:
  "start_redis redis c b = Return (b', gs) \<Longrightarrow> block_file b' = block_file b"
  by (auto simp: start_redis_def bind_outcome_Return_iff split: if_splits option.splits)

lemma start_redis_redis:
  "start_redis redis c b = Return (b', gs) \<Longrightarrow>
     block_redis b' = (if use_redis c then block_redis b' else block_redis b) \<and>
     (use_redis c \<longrightarrow> (\<exists>r. block_redis b' = Some (redisBlocklist_Refresh redis r) \<and>
        blacklistKey r = RedisKey c \<and> whitelistKey r = RedisWhitelistKey c))"
  by (auto simp: start_redis_def bind_outcome_Return_iff dest!: NewRedisBlocklist_keys split: if_splits option.splits)
     blast

lemma NewBlocklist_no_redis: "\<not> use_redis c \<Longrightarrow> \<exists>b gs. NewBlocklist fs redis c = Return (b, gs)"
  by (auto simp: NewBlocklist_def start_redis_def split: prod.splits)

lemma NewBlocklist_set_up:
  assumes "NewBlocklist fs redis c = Return (b, gs)" and "Enable c"
  shows "set_up fs redis c b"
proof -
  obtain b0 gs0 gs1 where b0: "start_file fs c (empty_block\<lparr>refreshInterval := seconds (RefreshInterval c)\<rparr>) = (b0, gs0)"
    and r: "start_redis redis c b0 = Return (b, gs1)"
    using assms by (auto simp: NewBlocklist_def bind_outcome_Return_iff split: prod.splits)
  from b0 have "block_redis b0 = None" "block_file b0 =
      (if use_file c then Some (fileBlocklist_Refresh fs (NewFileBlocklist (Config_File c) (WhitelistFile c)))
       else None)"
    by (auto simp: start_file_def empty_block_def split: if_splits)
  with start_redis_file [OF r] start_redis_redis [OF r] show ?thesis
    by (auto simp: set_up_def use_file_def NewFileBlocklist_def split: if_splits option.splits)
qed

lemma file_domains_Nil [simp]: "file_domains fs [] = {}"
  by (simp add: file_domains_def)

lemma set_up_allowed: "set_up fs redis c b \<Longrightarrow> IsAllowed b d \<longleftrightarrow> d \<in> white_domains fs redis c"
  by (auto simp: set_up_def IsAllowed_def white_domains_def file_list.allowed_refresh
        redis_list.allowed_refresh split: option.splits)

lemma set_up_blocked:
  "set_up fs redis c b \<Longrightarrow>
     IsBlocked b d \<longleftrightarrow> d \<in> black_domains fs redis c \<and> d \<notin> white_domains fs redis c"
  by (simp add: IsBlocked_def set_up_allowed)
     (auto simp: set_up_def black_domains_def file_list.blocked_refresh redis_list.blocked_refresh
        split: option.splits)

text \<open>The environments that the last tick of each refresher has seen.\<close>

type_synonym tick = "filesystem \<times> smembers \<times> refresher"

fun seen_by :: "tick list \<Rightarrow> filesystem \<times> smembers \<Rightarrow> filesystem \<times> smembers" where
  "seen_by [] env = env"
| "seen_by ((fs, redis, Refresh_file d) # ts) env = seen_by ts (fs, snd env)"
| "seen_by ((fs, redis, Refresh_redis d) # ts) env = seen_by ts (fst env, redis)"

fun run_ticks :: "tick list \<Rightarrow> block \<Rightarrow> block" where
  "run_ticks [] b = b"
| "run_ticks ((fs, redis, g) # ts) b = run_ticks ts (refresher_tick fs redis g b)"

lemma refresh_frame [simp]:
  "blacklistFile (fileBlocklist_Refresh fs f) = blacklistFile f"
  "whitelistFile (fileBlocklist_Refresh fs f) = whitelistFile f"
  "blacklistKey (redisBlocklist_Refresh redis r) = blacklistKey r"
  "whitelistKey (redisBlocklist_Refresh redis r) = whitelistKey r"
  by (simp_all add: fileBlocklist_Refresh_def redisBlocklist_Refresh_def)

lemma set_up_tick_file:
  "set_up fs redis c b \<Longrightarrow> set_up fs' redis c (refresher_tick fs' redis' (Refresh_file d) b)"
  by (fastforce simp: set_up_def split: option.splits)

lemma set_up_tick_redis:
  "set_up fs redis c b \<Longrightarrow> set_up fs redis' c (refresher_tick fs' redis' (Refresh_redis d) b)"
  by (fastforce simp: set_up_def split: option.splits)

lemma set_up_run:
  "set_up fs redis c b \<Longrightarrow>
     set_up (fst (seen_by ts (fs, redis))) (snd (seen_by ts (fs, redis))) c (run_ticks ts b)"
proof (induction ts arbitrary: fs redis b)
  case (Cons t ts)
  obtain fs' redis' g where t: "t = (fs', redis', g)" by (cases t)
  from Cons show ?case
    by (cases g) (simp_all add: t set_up_tick_file set_up_tick_redis
        del: refresher_tick.simps)
qed simp

section \<open>Properties\<close>

text \<open>C17: Once the module is set up, and after any further ticks of its refreshers, a domain is
  blocked exactly when it is on a blocklist and on no whitelist, where each backend's lists are
  those its last refresh has read: a whitelisted domain is never blocked, removed entries do not
  stay, and the two backends add up.\<close>

theorem blocklist_decision:
  assumes "NewBlocklist fs redis c = Return (b, gs)" and "Enable c"
    and "(fs', redis') = seen_by ts (fs, redis)"
  shows "IsBlocked (run_ticks ts b) d \<longleftrightarrow>
           d \<in> black_domains fs' redis' c \<and> d \<notin> white_domains fs' redis' c"
  using set_up_run [OF NewBlocklist_set_up [OF assms(1,2)], of ts] assms(3) set_up_blocked
  by (metis fst_conv snd_conv)

definition example_config :: Config where
  "example_config = \<lparr>Enable = True, Config_Backend = ''file'', Config_File = ''block'',
     WhitelistFile = ''white'', RefreshInterval = 300, RedisEnable = False, RedisKey = [],
     RedisWhitelistKey = [], Config_RedisSettings = IStruct ''RedisSettings''\<rparr>"

definition example_fs :: filesystem where
  "example_fs name =
     (if name = ''block'' then Some \<lparr>content = ''ads.com'', read_err = False\<rparr> else None)"

lemma example_enabled [simp]: "Enable example_config"
  by (simp add: example_config_def)

lemma example_domains [simp]:
  "black_domains example_fs redis example_config = {''ads.com''}"
  "white_domains example_fs redis example_config = {}"
proof -
  have "Scanner \<lparr>content = ''ads.com'', read_err = False\<rparr> = ([''ads.com''], False)"
    by (simp add: Scanner_short MaxScanTokenSize_def raw_lines_def dropCR_def)
  moreover have "TrimSpace ''ads.com'' = ''ads.com''"
    by (rule TrimSpace_visible) (simp add: visible_def)
  ultimately show "black_domains example_fs redis example_config = {''ads.com''}"
    by (auto simp: black_domains_def file_domains_def example_config_def example_fs_def
        use_redis_def entry_line_def HasPrefix_def)
  show "white_domains example_fs redis example_config = {}"
    by (simp add: white_domains_def file_domains_def example_config_def example_fs_def use_redis_def)
qed

theorem blocklist_decision_witness:
  "\<exists>b gs. NewBlocklist example_fs (\<lambda>_. None) example_config = Return (b, gs) \<and>
     IsBlocked (run_ticks [] b) ''ads.com'' \<and> \<not> IsBlocked (run_ticks [] b) ''example.com''"
proof -
  obtain b gs where b: "NewBlocklist example_fs (\<lambda>_. None) example_config = Return (b, gs)"
    using NewBlocklist_no_redis [of example_config example_fs "\<lambda>_. None"]
    by (auto simp: example_config_def use_redis_def)
  have "IsBlocked (run_ticks [] b) d \<longleftrightarrow> d = ''ads.com''" for d
    using blocklist_decision [OF b, of example_fs "\<lambda>_. None" "[]" d] by simp
  with b show ?thesis by simp
qed

text \<open>A Redis backend whose settings are passed as a struct, which is what the handler does,
  is never set up: the type assertion fails, the constructor returns \<open>nil\<close>, and the refresh that
  follows dereferences it.\<close>

theorem redis_blocklist_panics:
  assumes "Enable c" and "use_redis c" and "Config_RedisSettings c = IStruct name"
  shows "NewBlocklist fs redis c = Panic ''nil pointer dereference''"
  using assms by (simp add: NewBlocklist_def start_redis_def NewRedisBlocklist_def split: prod.splits)

theorem redis_blocklist_panics_witness:
  "NewBlocklist example_fs (\<lambda>_. Some [''ads.com'']) (example_config\<lparr>Config_Backend := ''redis''\<rparr>)
     = Panic ''nil pointer dereference''"
  by (rule redis_blocklist_panics) (simp_all add: example_config_def use_redis_def)



text \<open>Every refresher of an enabled module runs with the configured interval, and a module
  without a positive interval (the value of a missing setting is 0) starts refreshers whose
  tickers panic.\<close>

theorem refresher_intervals:
  assumes "NewBlocklist fs redis c = Return (b, gs)" and "Enable c" and "g \<in> set gs"
  shows "refresher_interval g = seconds (RefreshInterval c) \<and>
         ((\<exists>e. NewTicker (refresher_interval g) = Panic e) \<longleftrightarrow> seconds (RefreshInterval c) \<le> 0)"
  using assms
  by (auto simp: NewBlocklist_def start_file_def start_redis_def NewTicker_def bind_outcome_Return_iff
        split: prod.splits if_splits option.splits)

theorem refresher_intervals_witness:
  "\<exists>b g gs. NewBlocklist example_fs (\<lambda>_. None) (example_config\<lparr>RefreshInterval := 0\<rparr>)
      = Return (b, g # gs) \<and> (\<exists>e. NewTicker (refresher_interval g) = Panic e)"
proof -
  let ?c = "example_config\<lparr>RefreshInterval := 0\<rparr>"
  have "\<exists>b. NewBlocklist example_fs (\<lambda>_. None) ?c = Return (b, [Refresh_file 0])"
    by (simp add: NewBlocklist_def start_file_def start_redis_def example_config_def use_file_def
        use_redis_def seconds_def int64_def)
  then obtain b where b: "NewBlocklist example_fs (\<lambda>_. None) ?c = Return (b, [Refresh_file 0])" ..
  moreover have "\<exists>e. NewTicker (refresher_interval (Refresh_file 0)) = Panic e"
    using refresher_intervals [OF b, of "Refresh_file 0"]
    by (simp add: example_config_def seconds_def int64_def)
  ultimately show ?thesis by blast
qed

end
