(* ===== verification/Hosts.thy ===== *)
theory Hosts
  imports Go_Net Settings
begin

text \<open>
  The host records of \<open>hosts.go\<close>: the local file, the Redis hash, and their union, which asks the
  file first. The maps from host names to addresses are finite maps; a lookup that ranges over a
  map for a wildcard takes the order of the range as an argument. The file system, and the Redis
  commands \<open>HGetAll\<close> and \<open>HSet\<close>, are arguments. A pair \<open>(nil, false)\<close> of the source is \<open>None\<close>.

  The lookup is the same in both sources but for the reading of the stored text, so its contract
  is stated and used once, in the locale \<open>host_table\<close>.
\<close>

section \<open>Lookup\<close>

definition notIPQuery :: int where "notIPQuery = 0"
definition IP4Query :: int where "IP4Query = 4"
definition IP6Query :: int where "IP6Query = 6"

type_synonym host_map = "(string, string) fmap"

definition wildcard_match :: "string \<Rightarrow> string \<Rightarrow> bool" where
  "wildcard_match host domain \<longleftrightarrow>
     HasPrefix host ''*.'' \<and> HasSuffix domain (TrimPrefix host ''*'')"

fun find_wildcard :: "string list \<Rightarrow> host_map \<Rightarrow> string \<Rightarrow> string option" where
  "find_wildcard [] m domain = None"
| "find_wildcard (host # ord) m domain =
     (if wildcard_match host domain then fmlookup m host else find_wildcard ord m domain)"

record FileHosts =
  hosts_path :: string
  file_hosts :: host_map

definition FileHosts_Get :: "string list \<Rightarrow> FileHosts \<Rightarrow> string \<Rightarrow> string list option" where
  "FileHosts_Get ord f domain =
     (let d = ToLower domain in
      case fmlookup (file_hosts f) d of
        Some ip \<Rightarrow> Some [ip]
      | None \<Rightarrow> map_option (\<lambda>ip. [ip]) (find_wildcard ord (file_hosts f) d))"

record RedisHosts =
  redis_key :: string
  redis_hosts :: host_map

definition RedisHosts_Get :: "string list \<Rightarrow> RedisHosts \<Rightarrow> string \<Rightarrow> string list option" where
  "RedisHosts_Get ord r domain =
     (let d = ToLower domain in
      case fmlookup (redis_hosts r) d of
        Some ip \<Rightarrow> Some (Split ip (CHR '',''))
      | None \<Rightarrow> map_option (\<lambda>ip. Split ip (CHR '','')) (find_wildcard ord (redis_hosts r) d))"

record Hosts =
  fileHosts :: FileHosts
  redisHosts :: "RedisHosts option"
  hosts_interval :: duration

fun family_ips :: "int \<Rightarrow> string list \<Rightarrow> ip list" where
  "family_ips family [] = []"
| "family_ips family (sip # sips) =
     (case ParseIP sip of
        None \<Rightarrow> family_ips family sips
      | Some parsedIP \<Rightarrow>
          if family = IP4Query then
            (case To4 parsedIP of Some ip \<Rightarrow> ip # family_ips family sips
                                | None \<Rightarrow> family_ips family sips)
          else if family = IP6Query then
            (case To16 parsedIP of Some ip \<Rightarrow> ip # family_ips family sips
                                 | None \<Rightarrow> family_ips family sips)
          else family_ips family sips)"

definition Hosts_Get ::
  "string list \<Rightarrow> string list \<Rightarrow> Hosts \<Rightarrow> string \<Rightarrow> int \<Rightarrow> ip list option" where
  "Hosts_Get ord_file ord_redis h domain family =
     (let found = (case FileHosts_Get ord_file (fileHosts h) domain of
                     Some sips \<Rightarrow> Some sips
                   | None \<Rightarrow> (case redisHosts h of
                       None \<Rightarrow> None
                     | Some r \<Rightarrow> RedisHosts_Get ord_redis r domain))
      in case found of
           None \<Rightarrow> None
         | Some sips \<Rightarrow>
             let ips = family_ips family sips in if ips = [] then None else Some ips)"

section \<open>Refresh\<close>

fun add_domains :: "string list \<Rightarrow> string \<Rightarrow> host_map \<Rightarrow> host_map" where
  "add_domains [] ip m = m"
| "add_domains (part # parts) ip m =
     (let domain = TrimSpace part in
      if domain = [] then add_domains parts ip m
      else add_domains parts ip (fmupd (ToLower domain) ip m))"

definition add_line :: "string \<Rightarrow> host_map \<Rightarrow> host_map" where
  "add_line text m =
     (let line = ReplaceByte (CHR 0x09) (CHR '' '') (TrimSpace text) in
      if HasPrefix line ''#'' \<or> line = [] then m
      else let parts = Split line (CHR '' '') in
        if length parts < 2 then m
        else let ip = hd parts in
          if \<not> isIP ip then m else add_domains (tl parts) ip m)"

definition FileHosts_Refresh :: "filesystem \<Rightarrow> FileHosts \<Rightarrow> FileHosts" where
  "FileHosts_Refresh fs f =
     (case fs (hosts_path f) of
        None \<Rightarrow> f
      | Some buf \<Rightarrow> f\<lparr>file_hosts := fold add_line (fst (Scanner buf)) fmempty\<rparr>)"

type_synonym hgetall = "string \<Rightarrow> host_map option"

definition RedisHosts_Refresh :: "hgetall \<Rightarrow> RedisHosts \<Rightarrow> RedisHosts" where
  "RedisHosts_Refresh hgetall r =
     r\<lparr>redis_hosts := (case hgetall (redis_key r) of None \<Rightarrow> fmempty | Some result \<Rightarrow> result)\<rparr>"

text \<open>\<open>Set\<close> writes to the server only; the count of added fields and the error come from \<open>HSet\<close>.\<close>

definition RedisHosts_Set ::
  "('s \<Rightarrow> string \<Rightarrow> string \<Rightarrow> string \<Rightarrow> (int \<times> string option) \<times> 's) \<Rightarrow> 's \<Rightarrow> RedisHosts \<Rightarrow>
     string \<Rightarrow> string \<Rightarrow> (bool \<times> string option) \<times> 's" where
  "RedisHosts_Set hset server r domain ip =
     (let ((val, err), server') = hset server (redis_key r) (ToLower domain) ip
      in ((val > 0, err), server'))"

definition Hosts_refresh_round :: "filesystem \<Rightarrow> hgetall \<Rightarrow> Hosts \<Rightarrow> Hosts" where
  "Hosts_refresh_round fs hgetall h =
     h\<lparr>fileHosts := FileHosts_Refresh fs (fileHosts h),
       redisHosts := map_option (RedisHosts_Refresh hgetall) (redisHosts h)\<rparr>"

text \<open>\<open>NewHosts\<close> with \<open>refresh\<close>: the ticker is made before the goroutine of the rounds starts.\<close>

definition NewHosts :: "HostsSettings \<Rightarrow> Hosts outcome" where
  "NewHosts hs =
     (let interval = int64 (Second * uint (hosts_RefreshInterval hs)) in
      if interval \<le> 0 then Panic ''non-positive interval for NewTicker''
      else Return
        \<lparr>fileHosts = \<lparr>hosts_path = HostsFile hs, file_hosts = fmempty\<rparr>,
         redisHosts = (if hosts_RedisEnable hs
                       then Some \<lparr>redis_key = hosts_RedisKey hs, redis_hosts = fmempty\<rparr> else None),
         hosts_interval = interval\<rparr>)"

section \<open>The contract of a table of hosts\<close>

locale host_table =
  fixes get :: "string list \<Rightarrow> 'h \<Rightarrow> string \<Rightarrow> string list option"
    and entries :: "'h \<Rightarrow> host_map"
    and reading :: "string \<Rightarrow> string list"
  assumes get_exact: "fmlookup (entries h) (ToLower d) = Some ip \<Longrightarrow> get ord h d = Some (reading ip)"
    and get_wild: "fmlookup (entries h) (ToLower d) = None \<Longrightarrow>
          get ord h d = map_option reading (find_wildcard ord (entries h) (ToLower d))"
begin

lemma get_lower: "get ord h (ToLower d) = get ord h d"
  using get_exact [of h d] get_exact [of h "ToLower d"] get_wild [of h d] get_wild [of h "ToLower d"]
  by (cases "fmlookup (entries h) (ToLower d)") simp_all

lemma get_same_name: "ToLower d = ToLower d' \<Longrightarrow> get ord h d = get ord h d'"
  using get_lower [of ord h d] get_lower [of ord h d'] by simp

end

lemma find_wildcard_Some:
  "find_wildcard ord m d = Some ip \<Longrightarrow>
     \<exists>host \<in> set ord. wildcard_match host d \<and> fmlookup m host = Some ip"
  by (induction ord) (auto split: if_splits)

lemma find_wildcard_None:
  "set ord = fset (fmdom m) \<Longrightarrow>
     find_wildcard ord m d = None \<longleftrightarrow> (\<forall>host \<in> set ord. \<not> wildcard_match host d)"
proof -
  have "find_wildcard ord' m d = None \<longleftrightarrow> (\<forall>host \<in> set ord'. \<not> wildcard_match host d)"
    if "set ord' \<subseteq> fset (fmdom m)" for ord'
    using that by (induction ord') (auto simp: fmlookup_dom_iff)
  then show "find_wildcard ord m d = None \<longleftrightarrow> (\<forall>host \<in> set ord. \<not> wildcard_match host d)"
    if "set ord = fset (fmdom m)" using that by simp
qed

context host_table
begin

lemma get_sound:
  assumes "get ord h d = Some sips"
  shows "\<exists>host ip. fmlookup (entries h) host = Some ip \<and> sips = reading ip \<and>
           (host = ToLower d \<or> fmlookup (entries h) (ToLower d) = None \<and> wildcard_match host (ToLower d))"
  using assms get_exact [of h d] get_wild [of h d ord]
  by (cases "fmlookup (entries h) (ToLower d)") (auto, metis find_wildcard_Some)

lemma get_None_iff:
  assumes "range_order ord (entries h)"
  shows "get ord h d = None \<longleftrightarrow>
           (\<forall>host. fmlookup (entries h) host \<noteq> None \<longrightarrow>
              host \<noteq> ToLower d \<and> \<not> wildcard_match host (ToLower d))"
  using get_exact [of h d] get_wild [of h d ord] find_wildcard_None [of ord "entries h" "ToLower d"]
    range_order_set [OF assms]
  by (cases "fmlookup (entries h) (ToLower d)") (auto simp: fmlookup_dom_iff)

lemma get_order_free:
  assumes "range_order ord (entries h)" and "range_order ord' (entries h)"
    and "\<And>a b. fmlookup (entries h) a \<noteq> None \<Longrightarrow> fmlookup (entries h) b \<noteq> None \<Longrightarrow>
           wildcard_match a (ToLower d) \<Longrightarrow> wildcard_match b (ToLower d) \<Longrightarrow> a = b"
  shows "get ord h d = get ord' h d"
proof (cases "get ord h d")
  case None
  with get_None_iff [OF assms(1)] get_None_iff [OF assms(2)] have "get ord' h d = None" by blast
  with None show ?thesis by simp
next
  case (Some sips)
  with assms obtain sips' where s': "get ord' h d = Some sips'"
    using get_None_iff [OF assms(1)] get_None_iff [OF assms(2)]
    by (metis not_Some_eq option.distinct(1))
  show ?thesis
  proof (cases "fmlookup (entries h) (ToLower d)")
    case None
    with get_sound [OF Some] get_sound [OF s'] Some s' assms(3) show ?thesis by force
  next
    case (Some ip)
    then show ?thesis using get_exact by simp
  qed
qed

end

interpretation file_table: host_table FileHosts_Get file_hosts "\<lambda>ip. [ip]"
  by unfold_locales (simp_all add: FileHosts_Get_def)

interpretation redis_table: host_table RedisHosts_Get redis_hosts "\<lambda>ip. Split ip (CHR '','')"
  by unfold_locales (simp_all add: RedisHosts_Get_def)

section \<open>Lemmas\<close>

lemma family_ips_notIP: "family \<noteq> IP4Query \<Longrightarrow> family \<noteq> IP6Query \<Longrightarrow> family_ips family sips = []"
  by (induction sips) (auto split: option.splits)

lemma family_ips_IP4:
  "family_ips IP4Query sips = List.map_filter (\<lambda>sip. Option.bind (ParseIP sip) To4) sips"
  by (induction sips) (auto simp: List.map_filter_simps split: option.splits)

lemma family_ips_IP6:
  "family_ips IP6Query sips = List.map_filter ParseIP sips"
  by (induction sips)
     (auto simp: List.map_filter_simps IP4Query_def IP6Query_def To16_ParseIP split: option.splits)

text \<open>The associations a line adds, in their order; a later one replaces an earlier one.\<close>

definition line_hosts :: "string \<Rightarrow> (string \<times> string) list" where
  "line_hosts text =
     (let line = ReplaceByte (CHR 0x09) (CHR '' '') (TrimSpace text);
          parts = Split line (CHR '' '')
      in if line = [] \<or> hd line = CHR ''#'' \<or> length parts < 2 \<or> \<not> isIP (hd parts) then []
         else map (\<lambda>part. (ToLower (TrimSpace part), hd parts))
                (filter (\<lambda>part. TrimSpace part \<noteq> []) (tl parts)))"

definition upd_all :: "('k \<times> 'v) list \<Rightarrow> ('k, 'v) fmap \<Rightarrow> ('k, 'v) fmap" where
  "upd_all kvs m = fold (\<lambda>(k, v). fmupd k v) kvs m"

lemma upd_all_append: "upd_all (xs @ ys) m = upd_all ys (upd_all xs m)"
  by (simp add: upd_all_def)

lemma fmlookup_upd_all:
  "fmlookup (upd_all kvs m) k =
     (case map_of (rev kvs) k of Some v \<Rightarrow> Some v | None \<Rightarrow> fmlookup m k)"
  unfolding upd_all_def
  by (induction kvs arbitrary: m) (auto simp: map_add_def split: option.splits)

lemma add_domains_upd_all:
  "add_domains parts ip m =
     upd_all (map (\<lambda>part. (ToLower (TrimSpace part), ip)) (filter (\<lambda>part. TrimSpace part \<noteq> []) parts)) m"
  by (induction parts ip m rule: add_domains.induct) (auto simp: Let_def upd_all_def)

lemma HasPrefix_hash: "HasPrefix line ''#'' \<longleftrightarrow> line \<noteq> [] \<and> hd line = CHR ''#''"
  by (cases line) (auto simp: HasPrefix_def)

lemma add_line_upd_all: "add_line text m = upd_all (line_hosts text) m"
  by (auto simp: add_line_def line_hosts_def Let_def add_domains_upd_all HasPrefix_hash upd_all_def)

lemma fold_add_line: "fold add_line texts m = upd_all (concat (map line_hosts texts)) m"
  by (induction texts arbitrary: m) (simp_all add: add_line_upd_all upd_all_append upd_all_def)

lemma FileHosts_Refresh_lookup:
  "fs (hosts_path f) = Some buf \<Longrightarrow>
     fmlookup (file_hosts (FileHosts_Refresh fs f)) d =
       map_of (rev (concat (map line_hosts (fst (Scanner buf))))) d"
  by (simp add: FileHosts_Refresh_def fold_add_line fmlookup_upd_all split: option.splits)

lemma line_hosts_ok: "(d, ip) \<in> set (line_hosts text) \<Longrightarrow> isIP ip \<and> d \<noteq> [] \<and> ToLower d = d"
  by (auto simp: line_hosts_def Let_def split: if_splits) (simp add: ToLower_def)

definition hosts_ok :: "host_map \<Rightarrow> bool" where
  "hosts_ok m \<longleftrightarrow> (\<forall>d ip. fmlookup m d = Some ip \<longrightarrow> isIP ip \<and> d \<noteq> [] \<and> ToLower d = d)"

lemma hosts_ok_Refresh: "hosts_ok (file_hosts f) \<Longrightarrow> hosts_ok (file_hosts (FileHosts_Refresh fs f))"
proof (cases "fs (hosts_path f)")
  case (Some buf)
  show ?thesis
    using FileHosts_Refresh_lookup [of fs f buf, OF Some]
    by (auto simp: hosts_ok_def dest!: map_of_SomeD line_hosts_ok)
qed (simp add: FileHosts_Refresh_def)

lemma wildcard_match_iff:
  "wildcard_match host d \<longleftrightarrow> (\<exists>zone. host = ''*.'' @ zone \<and> suffix (CHR ''.'' # zone) d)"
  by (auto simp: wildcard_match_def HasPrefix_iff HasSuffix_iff TrimPrefix_def prefix_def)

lemma Hosts_Get_file:
  "FileHosts_Get ord (fileHosts h) d = Some sips \<Longrightarrow>
     Hosts_Get ord ord' h d family =
       (if family_ips family sips = [] then None else Some (family_ips family sips))"
  by (simp add: Hosts_Get_def Let_def)

lemma Hosts_Get_ips:
  "Hosts_Get ord ord' h d family = Some ips \<Longrightarrow> \<exists>sips. ips = family_ips family sips \<and> ips \<noteq> []"
  by (auto simp: Hosts_Get_def Let_def split: option.splits if_splits)

lemma map_filter_length:
  "(\<And>x y. f x = Some y \<Longrightarrow> length y = n) \<Longrightarrow> \<forall>y \<in> set (List.map_filter f xs). length y = n"
  by (auto simp: List.map_filter_def)

section \<open>Properties\<close>

text \<open>C18: The lookup in the hosts file: an entry for the name itself (in lower case) wins; without
  one, the answer is an entry \<open>*.zone\<close> of a zone above the name; and nothing is found exactly
  when there is neither.\<close>

theorem file_hosts_lookup:
  assumes "range_order ord (file_hosts f)"
  shows "(\<forall>ip. fmlookup (file_hosts f) (ToLower d) = Some ip \<longrightarrow> FileHosts_Get ord f d = Some [ip]) \<and>
    (fmlookup (file_hosts f) (ToLower d) = None \<longrightarrow>
       (case FileHosts_Get ord f d of
          None \<Rightarrow> \<forall>zone. suffix (CHR ''.'' # zone) (ToLower d) \<longrightarrow>
            fmlookup (file_hosts f) (''*.'' @ zone) = None
        | Some sips \<Rightarrow> \<exists>zone ip. suffix (CHR ''.'' # zone) (ToLower d) \<and>
            fmlookup (file_hosts f) (''*.'' @ zone) = Some ip \<and> sips = [ip]))"
proof (intro conjI impI allI)
  assume none: "fmlookup (file_hosts f) (ToLower d) = None"
  show "case FileHosts_Get ord f d of
      None \<Rightarrow> \<forall>zone. suffix (CHR ''.'' # zone) (ToLower d) \<longrightarrow>
        fmlookup (file_hosts f) (''*.'' @ zone) = None
    | Some sips \<Rightarrow> \<exists>zone ip. suffix (CHR ''.'' # zone) (ToLower d) \<and>
        fmlookup (file_hosts f) (''*.'' @ zone) = Some ip \<and> sips = [ip]"
  proof (cases "FileHosts_Get ord f d")
    case None
    with file_table.get_None_iff [OF assms, of d] show ?thesis
      by (auto simp: wildcard_match_iff)
  next
    case (Some sips)
    with file_table.get_sound [OF Some] none obtain host ip
      where "fmlookup (file_hosts f) host = Some ip" "sips = [ip]" "wildcard_match host (ToLower d)"
      by auto
    then obtain zone where "fmlookup (file_hosts f) (''*.'' @ zone) = Some ip" "sips = [ip]"
      "suffix (CHR ''.'' # zone) (ToLower d)" by (auto simp: wildcard_match_iff)
    with Some show ?thesis by auto
  qed
qed (simp add: file_table.get_exact)

theorem file_hosts_lookup_witness:
  "FileHosts_Get [''*.lan''] \<lparr>hosts_path = ''h'', file_hosts = fmap_of_list [(''*.lan'', ''10.0.0.1'')]\<rparr>
     ''nas.lan'' = Some [''10.0.0.1'']"
proof -
  let ?f = "\<lparr>hosts_path = ''h'', file_hosts = fmap_of_list [(''*.lan'', ''10.0.0.1'')]\<rparr>"
  have ord: "range_order [''*.lan''] (file_hosts ?f)"
    by (simp add: range_order_def)
  have low: "ToLower ''nas.lan'' = ''nas.lan''" by code_simp
  have "suffix (CHR ''.'' # ''lan'') ''nas.lan''"
    by (simp add: suffix_def)
  with file_hosts_lookup [OF ord, of "''nas.lan''"] low show ?thesis
    by (auto split: option.splits if_splits)
qed

text \<open>The answer does not depend on the case of the query, nor, when at most one wildcard entry
  matches the name, on the order in which the map is visited.\<close>

theorem hosts_lookup_deterministic:
  assumes "range_order ord (file_hosts f)" and "range_order ord' (file_hosts f)"
    and "ToLower d = ToLower d'"
    and "\<And>a b. fmlookup (file_hosts f) a \<noteq> None \<Longrightarrow> fmlookup (file_hosts f) b \<noteq> None \<Longrightarrow>
           wildcard_match a (ToLower d) \<Longrightarrow> wildcard_match b (ToLower d) \<Longrightarrow> a = b"
  shows "FileHosts_Get ord f d = FileHosts_Get ord' f d'"
proof -
  have "FileHosts_Get ord f d = FileHosts_Get ord' f d"
    by (rule file_table.get_order_free [OF assms(1,2,4)])
  also have "\<dots> = FileHosts_Get ord' f d'"
    by (rule file_table.get_same_name [OF assms(3)])
  finally show ?thesis .
qed

theorem hosts_lookup_deterministic_witness:
  "let f = \<lparr>hosts_path = ''h'', file_hosts = fmap_of_list [(''a'', ''10.0.0.1''), (''b'', ''10.0.0.2'')]\<rparr>
   in FileHosts_Get [''a'', ''b''] f ''A'' = FileHosts_Get [''b'', ''a''] f ''a''"
proof -
  let ?f = "\<lparr>hosts_path = ''h'', file_hosts = fmap_of_list [(''a'', ''10.0.0.1''), (''b'', ''10.0.0.2'')]\<rparr>"
  have "FileHosts_Get [''a'', ''b''] ?f ''A'' = FileHosts_Get [''b'', ''a''] ?f ''a''"
  proof (rule hosts_lookup_deterministic)
    show "range_order [''a'', ''b''] (file_hosts ?f)" "range_order [''b'', ''a''] (file_hosts ?f)"
      by (auto simp: range_order_def)
    show "ToLower ''A'' = ToLower ''a''" by code_simp
  qed (auto simp: fmlookup_of_list wildcard_match_iff split: if_splits)
  then show ?thesis by (simp only: Let_def)
qed

text \<open>With overlapping wildcard entries the answer depends on the order of the range, which Go
  does not fix: for \<open>*.com\<close> and \<open>*.example.com\<close> the same query gets either address.\<close>

theorem overlapping_wildcards_ambiguous:
  "\<exists>f ord ord'. range_order ord (file_hosts f) \<and> range_order ord' (file_hosts f) \<and>
     FileHosts_Get ord f ''www.example.com'' = Some [''10.0.0.1''] \<and>
     FileHosts_Get ord' f ''www.example.com'' = Some [''10.0.0.2'']"
proof -
  let ?f = "\<lparr>hosts_path = ''h'',
    file_hosts = fmap_of_list [(''*.com'', ''10.0.0.1''), (''*.example.com'', ''10.0.0.2'')]\<rparr>"
  have "range_order [''*.com'', ''*.example.com''] (file_hosts ?f)"
    "range_order [''*.example.com'', ''*.com''] (file_hosts ?f)"
    by (auto simp: range_order_def)
  moreover have "ToLower ''www.example.com'' = ''www.example.com''" by code_simp
  moreover have "wildcard_match ''*.com'' ''www.example.com''"
    "wildcard_match ''*.example.com'' ''www.example.com''"
    by (simp_all add: wildcard_match_def HasPrefix_def HasSuffix_def TrimPrefix_def)
  ultimately have "FileHosts_Get [''*.com'', ''*.example.com''] ?f ''www.example.com'' = Some [''10.0.0.1'']"
    "FileHosts_Get [''*.example.com'', ''*.com''] ?f ''www.example.com'' = Some [''10.0.0.2'']"
    by (simp_all add: FileHosts_Get_def fmlookup_of_list)
  with \<open>range_order [''*.com'', ''*.example.com''] (file_hosts ?f)\<close>
    \<open>range_order [''*.example.com'', ''*.com''] (file_hosts ?f)\<close> show ?thesis by blast
qed

text \<open>C19: What \<open>Hosts.Get\<close> returns is not empty and has the length of its family: 4 bytes for an
  IPv4 query, 16 bytes for an IPv6 query. A query of any other type, such as MX, is never answered
  from the hosts.\<close>

theorem hosts_get_family:
  assumes "Hosts_Get ord ord' h d family = Some ips"
  shows "ips \<noteq> [] \<and>
    (family = IP4Query \<and> (\<forall>ip \<in> set ips. length ip = 4) \<or>
     family = IP6Query \<and> (\<forall>ip \<in> set ips. length ip = 16))"
proof -
  obtain sips where ips: "ips = family_ips family sips" "ips \<noteq> []"
    using Hosts_Get_ips [OF assms] by blast
  then consider "family = IP4Query" | "family = IP6Query"
    using family_ips_notIP by blast
  then show ?thesis
  proof cases
    case 1
    have "\<forall>ip \<in> set (family_ips IP4Query sips). length ip = 4"
      unfolding family_ips_IP4
      by (rule map_filter_length) (auto simp: To4_length split: Option.bind_splits)
    with 1 ips show ?thesis by simp
  next
    case 2
    have "\<forall>ip \<in> set (family_ips IP6Query sips). length ip = 16"
      unfolding family_ips_IP6 by (rule map_filter_length) (rule ParseIP_length)
    with 2 ips show ?thesis by simp
  qed
qed

definition nas_hosts :: Hosts where
  "nas_hosts = \<lparr>fileHosts = \<lparr>hosts_path = ''h'', file_hosts = fmap_of_list [(''nas'', ''10.0.0.1'')]\<rparr>,
     redisHosts = None, hosts_interval = Second\<rparr>"

lemma ParseIP_nas:
  "ParseIP ''10.0.0.1'' = Some [0, 0, 0, 0, 0, 0, 0, 0, 0, 0, 255, 255, 10, 0, 0, 1]"
  by (simp add: ParseIP_def parseIPv4Fields_def digit_val_def v4InV6Prefix_def eval_nat_numeral)

lemma To4_nas: "To4 [0, 0, 0, 0, 0, 0, 0, 0, 0, 0, 255, 255, 10, 0, 0, 1] = Some [10, 0, 0, 1]"
  by (simp add: To4_def v4InV6Prefix_def eval_nat_numeral)

lemma nas_lookup: "FileHosts_Get ord (fileHosts nas_hosts) ''nas'' = Some [''10.0.0.1'']"
proof (rule file_table.get_exact)
  have "ToLower ''nas'' = ''nas''" by code_simp
  then show "fmlookup (file_hosts (fileHosts nas_hosts)) (ToLower ''nas'') = Some ''10.0.0.1''"
    by (simp add: nas_hosts_def)
qed

lemma nas_get:
  "Hosts_Get ord ord' nas_hosts ''nas'' IP6Query =
     Some [[0, 0, 0, 0, 0, 0, 0, 0, 0, 0, 255, 255, 10, 0, 0, 1]]"
  "Hosts_Get ord ord' nas_hosts ''nas'' IP4Query = Some [[10, 0, 0, 1]]"
  by (simp_all add: Hosts_Get_file [OF nas_lookup] family_ips_IP4 family_ips_IP6 ParseIP_nas
      List.map_filter_simps To4_nas del: family_ips.simps)

theorem hosts_get_family_witness:
  "\<exists>ips. Hosts_Get [] [] nas_hosts ''nas'' IP4Query = Some ips \<and> (\<forall>ip \<in> set ips. length ip = 4)"
  using hosts_get_family [OF nas_get(2) [of "[]" "[]"]] nas_get(2)
  by (auto simp: IP4Query_def IP6Query_def)

text \<open>An IPv6 query for a host with an IPv4 address in the file is answered, with that address
  in its 16-byte form: \<open>To16\<close> maps IPv4 addresses to IPv6 ones and never fails.\<close>

theorem ipv6_query_gets_mapped_ipv4:
  assumes "FileHosts_Get ord (fileHosts h) d = Some [sip]" and "ParseIP sip = Some ip"
    and "To4 ip = Some ip4"
  shows "Hosts_Get ord ord' h d IP6Query = Some [ip]"
  using assms by (simp add: Hosts_Get_file family_ips_IP6 List.map_filter_simps del: family_ips.simps)

theorem ipv6_query_gets_mapped_ipv4_witness:
  "Hosts_Get [] [] nas_hosts ''nas'' IP6Query =
     Some [[0, 0, 0, 0, 0, 0, 0, 0, 0, 0, 255, 255, 10, 0, 0, 1]]"
  by (rule ipv6_query_gets_mapped_ipv4 [OF nas_lookup ParseIP_nas To4_nas])

text \<open>A refresh from the file replaces the table by the associations of the file's lines, the
  last one for a name winning; a file that can not be opened leaves the table as it was, while an
  error of Redis empties the other table.\<close>

theorem refresh_content:
  "file_hosts (FileHosts_Refresh fs f) =
     (case fs (hosts_path f) of
        None \<Rightarrow> file_hosts f
      | Some buf \<Rightarrow> fmap_of_list (rev (concat (map line_hosts (fst (Scanner buf)))))) \<and>
   redis_hosts (RedisHosts_Refresh hgetall r) =
     (case hgetall (redis_key r) of None \<Rightarrow> fmempty | Some result \<Rightarrow> result)"
proof (cases "fs (hosts_path f)")
  case (Some buf)
  have "file_hosts (FileHosts_Refresh fs f) =
      fmap_of_list (rev (concat (map line_hosts (fst (Scanner buf)))))"
    by (rule fmap_ext) (simp only: FileHosts_Refresh_lookup [of fs f buf, OF Some] fmlookup_of_list)
  with Some show ?thesis by (simp add: RedisHosts_Refresh_def)
qed (simp add: FileHosts_Refresh_def RedisHosts_Refresh_def)

text \<open>C38: In every state of the hosts module, from its construction through any rounds of
  refreshing, the file's table maps lower-case, non-empty names to texts that parse as IP
  addresses.\<close>

theorem file_hosts_wellformed:
  assumes "NewHosts hs = Return h"
  shows "hosts_ok (file_hosts (fileHosts (fold (\<lambda>(fs, hgetall). Hosts_refresh_round fs hgetall) rounds h)))"
proof -
  have "hosts_ok (file_hosts (fileHosts h))"
    using assms by (auto simp: NewHosts_def Let_def hosts_ok_def split: if_splits)
  then show ?thesis
    by (induction rounds arbitrary: h) (auto simp: Hosts_refresh_round_def hosts_ok_Refresh)
qed

definition default_hosts_settings :: HostsSettings where
  "default_hosts_settings = \<lparr>hosts_Enable = True, HostsFile = ''/etc/hosts'', hosts_RedisEnable = False,
     hosts_RedisKey = ''godns:hosts'', hosts_TTL = 600, hosts_RefreshInterval = 5\<rparr>"

lemma NewHosts_default: "\<exists>h. NewHosts default_hosts_settings = Return h"
  by (simp add: NewHosts_def default_hosts_settings_def int64_def)

theorem file_hosts_wellformed_witness:
  "\<exists>h. NewHosts default_hosts_settings = Return h \<and>
     hosts_ok (file_hosts (fileHosts (Hosts_refresh_round (\<lambda>_. None) (\<lambda>_. None) h)))"
proof -
  obtain h where h: "NewHosts default_hosts_settings = Return h" using NewHosts_default ..
  from file_hosts_wellformed [OF h, of "[(\<lambda>_. None, \<lambda>_. None)]"] h show ?thesis by auto
qed

end
