(* ===== verification/Domain_Name.thy ===== *)
theory Domain_Name
  imports Go_Net
begin

text \<open>
  \<open>isDomain\<close> of \<open>utils.go\<close>: a text that is not an IP address and matches a regular expression. The
  expressions that the source uses are a datatype here, and matching is the usual matching with
  derivatives, which is shown to decide membership in the language of the expression. The classes
  of the expression have ASCII characters only, so a byte that is part of a longer rune matches
  none of them.
\<close>

section \<open>Regular expressions\<close>

datatype regex =
    Never
  | Empty_text
  | Class "char \<Rightarrow> bool"
  | Seq regex regex
  | Alt regex regex
  | Star regex

fun nullable :: "regex \<Rightarrow> bool" where
  "nullable Never \<longleftrightarrow> False"
| "nullable Empty_text \<longleftrightarrow> True"
| "nullable (Class p) \<longleftrightarrow> False"
| "nullable (Seq r s) \<longleftrightarrow> nullable r \<and> nullable s"
| "nullable (Alt r s) \<longleftrightarrow> nullable r \<or> nullable s"
| "nullable (Star r) \<longleftrightarrow> True"

fun deriv :: "char \<Rightarrow> regex \<Rightarrow> regex" where
  "deriv c Never = Never"
| "deriv c Empty_text = Never"
| "deriv c (Class p) = (if p c then Empty_text else Never)"
| "deriv c (Seq r s) =
     (if nullable r then Alt (Seq (deriv c r) s) (deriv c s) else Seq (deriv c r) s)"
| "deriv c (Alt r s) = Alt (deriv c r) (deriv c s)"
| "deriv c (Star r) = Seq (deriv c r) (Star r)"

definition MatchString :: "regex \<Rightarrow> string \<Rightarrow> bool" where
  "MatchString r s \<longleftrightarrow> nullable (fold deriv s r)"

definition Plus :: "regex \<Rightarrow> regex" where
  "Plus r = Seq r (Star r)"

definition Optional :: "regex \<Rightarrow> regex" where
  "Optional r = Alt Empty_text r"

fun Up_to :: "nat \<Rightarrow> regex \<Rightarrow> regex" where
  "Up_to 0 r = Empty_text"
| "Up_to (Suc n) r = Alt Empty_text (Seq r (Up_to n r))"

section \<open>The model\<close>

definition letter :: "char \<Rightarrow> bool" where
  "letter c \<longleftrightarrow> c \<in> set ''abcdefghijklmnopqrstuvwxyzABCDEFGHIJKLMNOPQRSTUVWXYZ''"

definition alnum :: "char \<Rightarrow> bool" where
  "alnum c \<longleftrightarrow> letter c \<or> c \<in> set ''0123456789''"

definition label_regex :: regex where
  "label_regex =
     Seq (Class (\<lambda>c. alnum c \<or> c = CHR ''*''))
       (Optional (Seq (Up_to 61 (Class (\<lambda>c. alnum c \<or> c = CHR ''-''))) (Class alnum)))"

definition tld_regex :: regex where
  "tld_regex = Seq (Class letter) (Seq (Class letter) (Up_to 4 (Class letter)))"

definition domain_regex :: regex where
  "domain_regex = Seq (Plus (Seq label_regex (Class (\<lambda>c. c = CHR ''.'')))) tld_regex"

definition isDomain :: "string \<Rightarrow> bool" where
  "isDomain domain \<longleftrightarrow> (if isIP domain then False else MatchString domain_regex domain)"

section \<open>Languages\<close>

inductive_set star :: "string set \<Rightarrow> string set" for A where
  star_Nil: "[] \<in> star A"
| star_app: "u \<in> A \<Longrightarrow> v \<in> star A \<Longrightarrow> u @ v \<in> star A"

fun lang :: "regex \<Rightarrow> string set" where
  "lang Never = {}"
| "lang Empty_text = {[]}"
| "lang (Class p) = {[c] |c. p c}"
| "lang (Seq r s) = {u @ v |u v. u \<in> lang r \<and> v \<in> lang s}"
| "lang (Alt r s) = lang r \<union> lang s"
| "lang (Star r) = star (lang r)"

lemma nullable_lang: "nullable r \<longleftrightarrow> [] \<in> lang r"
  by (induction r) (auto intro: star_Nil)

lemma star_Cons: "c # w \<in> star A \<longleftrightarrow> (\<exists>u v. w = u @ v \<and> c # u \<in> A \<and> v \<in> star A)"
proof
  have "\<exists>u v. w = u @ v \<and> c # u \<in> A \<and> v \<in> star A" if "x \<in> star A" "x = c # w" for x
    using that
  proof (induction)
    case (star_app u v)
    then show ?case by (cases u) auto
  qed simp
  then show "c # w \<in> star A \<Longrightarrow> \<exists>u v. w = u @ v \<and> c # u \<in> A \<and> v \<in> star A" by blast
next
  assume "\<exists>u v. w = u @ v \<and> c # u \<in> A \<and> v \<in> star A"
  then obtain u v where "w = u @ v" "c # u \<in> A" "v \<in> star A" by blast
  then show "c # w \<in> star A" using star_app [of "c # u" A v] by simp
qed

lemma deriv_lang: "w \<in> lang (deriv c r) \<longleftrightarrow> c # w \<in> lang r"
proof (induction r arbitrary: w)
  case (Seq r s)
  have "c # w \<in> lang (Seq r s) \<longleftrightarrow>
      (\<exists>u v. w = u @ v \<and> c # u \<in> lang r \<and> v \<in> lang s) \<or> [] \<in> lang r \<and> c # w \<in> lang s"
    by (auto simp: Cons_eq_append_conv)
  with Seq show ?case by (auto simp: nullable_lang)
next
  case (Star r)
  then show ?case by (auto simp: star_Cons)
qed auto

lemma MatchString_lang: "MatchString r s \<longleftrightarrow> s \<in> lang r"
  unfolding MatchString_def by (induction s arbitrary: r) (simp_all add: nullable_lang deriv_lang)

lemma star_concat: "w \<in> star A \<longleftrightarrow> (\<exists>us. w = concat us \<and> set us \<subseteq> A)"
proof
  show "w \<in> star A \<Longrightarrow> \<exists>us. w = concat us \<and> set us \<subseteq> A"
  proof (induction rule: star.induct)
    case (star_app u v)
    then obtain us where "v = concat us" "set us \<subseteq> A" by blast
    with star_app show ?case by (intro exI [of _ "u # us"]) simp
  qed (auto intro: exI [of _ "[]"])
  have "concat us \<in> star A" if "set us \<subseteq> A" for us
    using that by (induction us) (auto intro: star_Nil star_app)
  then show "\<exists>us. w = concat us \<and> set us \<subseteq> A \<Longrightarrow> w \<in> star A" by blast
qed

lemma Plus_lang: "w \<in> lang (Plus r) \<longleftrightarrow> (\<exists>us. us \<noteq> [] \<and> set us \<subseteq> lang r \<and> w = concat us)"
proof
  assume "w \<in> lang (Plus r)"
  then obtain u us where "u \<in> lang r" "set us \<subseteq> lang r" "w = u @ concat us"
    by (auto simp: Plus_def star_concat)
  then show "\<exists>us. us \<noteq> [] \<and> set us \<subseteq> lang r \<and> w = concat us" by (intro exI [of _ "u # us"]) simp
next
  assume "\<exists>us. us \<noteq> [] \<and> set us \<subseteq> lang r \<and> w = concat us"
  then obtain u us where "u \<in> lang r" "set us \<subseteq> lang r" "w = u @ concat us"
    by (metis concat.simps(2) insert_subset list.exhaust list.simps(15))
  then show "w \<in> lang (Plus r)" unfolding Plus_def lang.simps(4,6) star_concat by blast
qed

lemma Class_Seq: "w \<in> lang (Seq (Class p) r) \<longleftrightarrow> (\<exists>c v. w = c # v \<and> p c \<and> v \<in> lang r)"
  by auto (metis append_Cons append_Nil)

lemma Seq_Class: "w \<in> lang (Seq r (Class p)) \<longleftrightarrow> (\<exists>u c. w = u @ [c] \<and> u \<in> lang r \<and> p c)"
  by auto

lemma Alt_lang: "w \<in> lang (Alt r s) \<longleftrightarrow> w \<in> lang r \<or> w \<in> lang s" "w \<in> lang Empty_text \<longleftrightarrow> w = []"
  by auto

lemma Up_to_lang: "s \<in> lang (Up_to n (Class p)) \<longleftrightarrow> length s \<le> n \<and> (\<forall>c \<in> set s. p c)"
proof (induction n arbitrary: s)
  case (Suc n)
  show ?case unfolding Up_to.simps Alt_lang Class_Seq Suc by (cases s) auto
qed auto

lemmas regex_langs = Class_Seq Seq_Class Alt_lang Up_to_lang

section \<open>What the expression accepts\<close>

definition label_ok :: "string \<Rightarrow> bool" where
  "label_ok l \<longleftrightarrow>
     l \<noteq> [] \<and> length l \<le> 63 \<and> (alnum (hd l) \<or> hd l = CHR ''*'') \<and>
     (\<forall>c \<in> set (tl l). alnum c \<or> c = CHR ''-'') \<and> (tl l \<noteq> [] \<longrightarrow> alnum (last l))"

definition tld_ok :: "string \<Rightarrow> bool" where
  "tld_ok l \<longleftrightarrow> 2 \<le> length l \<and> length l \<le> 6 \<and> (\<forall>c \<in> set l. letter c)"

lemma label_lang: "l \<in> lang label_regex \<longleftrightarrow> label_ok l"
proof (cases l)
  case (Cons c t)
  have "l \<in> lang label_regex \<longleftrightarrow> (alnum c \<or> c = CHR ''*'') \<and> (t = [] \<or>
      (\<exists>m d. t = m @ [d] \<and> length m \<le> 61 \<and> (\<forall>x \<in> set m. alnum x \<or> x = CHR ''-'') \<and> alnum d))"
    unfolding label_regex_def Optional_def regex_langs Cons by auto
  also have "\<dots> \<longleftrightarrow> label_ok l"
    by (cases t rule: rev_cases) (auto simp: Cons label_ok_def)
  finally show ?thesis .
qed (simp add: label_regex_def label_ok_def)

lemma tld_lang: "l \<in> lang tld_regex \<longleftrightarrow> tld_ok l"
  unfolding tld_regex_def regex_langs by (cases l; cases "tl l") (auto simp: tld_ok_def)

lemma dot_class: "\<not> letter (CHR ''.'')" "\<not> alnum (CHR ''.'')"
  by (simp_all add: letter_def alnum_def)

lemma dot_free: "label_ok l \<Longrightarrow> CHR ''.'' \<notin> set l" "tld_ok l \<Longrightarrow> CHR ''.'' \<notin> set l"
  using dot_class by (cases l; auto simp: label_ok_def tld_ok_def)+

text \<open>The texts of the part that is repeated: labels, each with a dot behind it.\<close>

lemma labels_lang:
  "w \<in> lang (Plus (Seq label_regex (Class (\<lambda>c. c = CHR ''.'')))) \<longleftrightarrow>
     (\<exists>ls. ls \<noteq> [] \<and> (\<forall>l \<in> set ls. label_ok l) \<and> w = concat (map (\<lambda>l. l @ ''.'') ls))"
proof -
  let ?A = "{l @ ''.'' |l. label_ok l}"
  have A: "lang (Seq label_regex (Class (\<lambda>c. c = CHR ''.''))) = ?A"
    using Seq_Class label_lang by (intro set_eqI) auto
  have lift: "set us \<subseteq> ?A \<longleftrightarrow> (\<exists>ls. us = map (\<lambda>l. l @ ''.'') ls \<and> (\<forall>l \<in> set ls. label_ok l))" for us
  proof (induction us)
    case (Cons u us)
    have "set (u # us) \<subseteq> ?A \<longleftrightarrow> (\<exists>l. u = l @ ''.'' \<and> label_ok l) \<and> set us \<subseteq> ?A" by auto
    also have "\<dots> \<longleftrightarrow> (\<exists>ls. u # us = map (\<lambda>l. l @ ''.'') ls \<and> (\<forall>l \<in> set ls. label_ok l))"
      unfolding Cons by (auto simp: Cons_eq_map_conv) (metis set_ConsD)
    finally show ?case .
  qed auto
  have "w \<in> lang (Plus (Seq label_regex (Class (\<lambda>c. c = CHR ''.'')))) \<longleftrightarrow>
      (\<exists>us. us \<noteq> [] \<and> set us \<subseteq> ?A \<and> w = concat us)"
    unfolding Plus_lang A ..
  also have "\<dots> \<longleftrightarrow> (\<exists>ls. ls \<noteq> [] \<and> (\<forall>l \<in> set ls. label_ok l) \<and> w = concat (map (\<lambda>l. l @ ''.'') ls))"
    unfolding lift by auto
  finally show ?thesis .
qed

text \<open>Splitting undoes this.\<close>

lemma Split_labels:
  "(\<forall>l \<in> set ls. CHR ''.'' \<notin> set l) \<Longrightarrow> CHR ''.'' \<notin> set t \<Longrightarrow>
     Split (concat (map (\<lambda>l. l @ ''.'') ls) @ t) (CHR ''.'') = ls @ [t]"
  by (induction ls) (simp_all add: Split_single Split_append)

lemma labels_Join: "concat (map (\<lambda>l. l @ ''.'') ls) @ t = Join (ls @ [t]) ''.''"
proof (induction ls)
  case (Cons l ls)
  obtain a as where "ls @ [t] = a # as" by (cases "ls @ [t]") auto
  with Cons show ?case by simp
qed simp

section \<open>Properties\<close>

text \<open>C35: What \<open>isDomain\<close> accepts: a text that is not an IP address, with two labels at least, the last one
  of two to six letters, each of the others of at most 63 characters that are letters, digits or
  hyphens, of which the first may be a star but not a hyphen and the last is no hyphen.\<close>

theorem isDomain_labels:
  "isDomain d \<longleftrightarrow>
     \<not> isIP d \<and> (let ls = Split d (CHR ''.'') in
       2 \<le> length ls \<and> list_all label_ok (butlast ls) \<and> tld_ok (last ls))"
proof -
  have "d \<in> lang domain_regex \<longleftrightarrow>
      (\<exists>ls t. ls \<noteq> [] \<and> (\<forall>l \<in> set ls. label_ok l) \<and> tld_ok t \<and> d = concat (map (\<lambda>l. l @ ''.'') ls) @ t)"
    unfolding domain_regex_def lang.simps(4) by (auto simp: labels_lang tld_lang)
  also have "\<dots> \<longleftrightarrow> (\<exists>ls t. ls \<noteq> [] \<and> (\<forall>l \<in> set ls. label_ok l) \<and> tld_ok t \<and> Split d (CHR ''.'') = ls @ [t])"
    using Split_labels dot_free labels_Join Join_Split by metis
  also have "\<dots> \<longleftrightarrow> (let ls = Split d (CHR ''.'') in
      2 \<le> length ls \<and> list_all label_ok (butlast ls) \<and> tld_ok (last ls))"
    by (cases "Split d (CHR ''.'')" rule: rev_cases) (auto simp: list_all_iff Let_def Suc_le_eq)
  finally show ?thesis by (simp add: isDomain_def MatchString_lang)
qed

end
