(* ===== verification/Dns.thy ===== *)
theory Dns
  imports Go_Net
begin

text \<open>
  The data of package \<open>github.com/miekg/dns\<close> that the sources read and write, and the functions of
  that package they call, as a record of parameters. A resource record is an interface value, so
  its dynamic type is a constructor; each constructor has the fields the sources use, and the rest
  of the data is text that they never look at. A message has the header fields the sources name;
  the other header bits are one field, which they only copy.

  The record \<open>dns_lib\<close> holds the functions of the package. Nothing is assumed of them here: a
  theorem that relies on their documented behaviour states it as a hypothesis (\<open>fqdn_spec\<close> and
  \<open>split_spec\<close> below), and the witness of such a theorem uses the concrete functions of the
  last section.
\<close>

section \<open>Records and messages\<close>

record RR_Header =
  hdr_Name :: string
  hdr_Rrtype :: "16 word"
  hdr_Class :: "16 word"
  hdr_Ttl :: "32 word"

record DNSKEY =
  key_Hdr :: RR_Header
  key_Algorithm :: "8 word"
  key_PublicKey :: string

record DS =
  ds_Hdr :: RR_Header
  ds_KeyTag :: "16 word"
  ds_Algorithm :: "8 word"
  ds_DigestType :: "8 word"
  ds_Digest :: string

record RRSIG =
  sig_Hdr :: RR_Header
  sig_TypeCovered :: "16 word"
  sig_KeyTag :: "16 word"
  sig_SignerName :: string
  sig_Expiration :: "32 word"
  sig_Inception :: "32 word"
  sig_Signature :: string

datatype rr =
    RR_A RR_Header ip
  | RR_AAAA RR_Header ip
  | RR_MX RR_Header "16 word" string
  | RR_NS RR_Header string
  | RR_DS DS
  | RR_DNSKEY DNSKEY
  | RR_RRSIG RRSIG
  | RR_OPT RR_Header string
  | RR_Other RR_Header string

fun Header :: "rr \<Rightarrow> RR_Header" where
  "Header (RR_A h _) = h"
| "Header (RR_AAAA h _) = h"
| "Header (RR_MX h _ _) = h"
| "Header (RR_NS h _) = h"
| "Header (RR_DS d) = ds_Hdr d"
| "Header (RR_DNSKEY k) = key_Hdr k"
| "Header (RR_RRSIG s) = sig_Hdr s"
| "Header (RR_OPT h _) = h"
| "Header (RR_Other h _) = h"

record Question =
  q_Name :: string
  q_Qtype :: "16 word"
  q_Qclass :: "16 word"

record Msg =
  Id :: "16 word"
  Rcode :: int
  Authoritative :: bool
  header_bits :: "16 word"
  Msg_Question :: "Question list"
  Answer :: "rr list"
  Ns :: "rr list"
  Extra :: "rr list"

text \<open>\<open>new(dns.Msg)\<close>.\<close>

definition new_Msg :: Msg where
  "new_Msg = \<lparr>Id = 0, Rcode = 0, Authoritative = False, header_bits = 0,
     Msg_Question = [], Answer = [], Ns = [], Extra = []\<rparr>"

section \<open>Constants\<close>

definition TypeA :: "16 word" where "TypeA = 1"
definition TypeNS :: "16 word" where "TypeNS = 2"
definition TypeCNAME :: "16 word" where "TypeCNAME = 5"
definition TypeMX :: "16 word" where "TypeMX = 15"
definition TypeAAAA :: "16 word" where "TypeAAAA = 28"
definition TypeOPT :: "16 word" where "TypeOPT = 41"
definition TypeDS :: "16 word" where "TypeDS = 43"
definition TypeDNSKEY :: "16 word" where "TypeDNSKEY = 48"
definition ClassINET :: "16 word" where "ClassINET = 1"
definition RcodeSuccess :: int where "RcodeSuccess = 0"
definition RcodeServerFailure :: int where "RcodeServerFailure = 2"
definition RcodeNameError :: int where "RcodeNameError = 3"
definition digest_SHA256 :: "8 word" where "digest_SHA256 = 2"

lemmas Type_defs =
  TypeA_def TypeNS_def TypeCNAME_def TypeMX_def TypeAAAA_def TypeOPT_def TypeDS_def TypeDNSKEY_def

section \<open>The library\<close>

text \<open>
  \<open>Verify\<close> is the error of \<open>(*RRSIG).Verify\<close>, if any; \<open>NewRR\<close> returns an error, or a record, or
  neither when the text has no record; \<open>IsEdns0\<close> is the position in the additional section of the
  OPT record that the method returns a pointer to; \<open>SetDo\<close> works on an OPT record.
\<close>

record dns_lib =
  IsFqdn :: "string \<Rightarrow> bool"
  Fqdn :: "string \<Rightarrow> string"
  dns_Split :: "string \<Rightarrow> nat list"
  KeyTag :: "DNSKEY \<Rightarrow> 16 word"
  ToDS :: "DNSKEY \<Rightarrow> 8 word \<Rightarrow> DS option"
  Verify :: "RRSIG \<Rightarrow> DNSKEY \<Rightarrow> rr list \<Rightarrow> string option"
  NewRR :: "string \<Rightarrow> string + rr option"
  SetQuestion :: "Msg \<Rightarrow> string \<Rightarrow> 16 word \<Rightarrow> Msg"
  SetEdns0 :: "Msg \<Rightarrow> 16 word \<Rightarrow> bool \<Rightarrow> Msg"
  IsEdns0 :: "Msg \<Rightarrow> nat option"
  SetDo :: "rr \<Rightarrow> rr"
  SetReply :: "Msg \<Rightarrow> Msg \<Rightarrow> Msg"
  SetRcode :: "Msg \<Rightarrow> Msg \<Rightarrow> int \<Rightarrow> Msg"
  HandleFailed :: "Msg \<Rightarrow> Msg"
  Type_String :: "16 word \<Rightarrow> string"
  Class_String :: "16 word \<Rightarrow> string"
  Pack :: "Msg \<Rightarrow> string + string"
  Unpack :: "string \<Rightarrow> string + Msg"

text \<open>\<open>Fqdn\<close> makes a name fully qualified and is the identity on such names.\<close>

definition fqdn_spec :: "dns_lib \<Rightarrow> bool" where
  "fqdn_spec L \<longleftrightarrow> (\<forall>s. Fqdn L s = (if IsFqdn L s then s else s @ ''.''))"

text \<open>\<open>Split\<close> gives the positions where the labels of a name begin, the first at 0; what follows a
  label of a fully qualified name is fully qualified.\<close>

definition split_spec :: "dns_lib \<Rightarrow> bool" where
  "split_spec L \<longleftrightarrow>
     (\<forall>s i is. dns_Split L s = i # is \<longrightarrow> i = 0 \<and> sorted_wrt (<) (i # is) \<and> (\<forall>j \<in> set is. j < length s)) \<and>
     (\<forall>s i j is. IsFqdn L s \<longrightarrow> dns_Split L s = i # j # is \<longrightarrow> IsFqdn L (drop j s))"

section \<open>A concrete instance of the names\<close>

text \<open>Names without escapes: a name is fully qualified when it ends in a dot, and a label begins
  at the start of the name and after every dot but the last one.\<close>

definition plain_IsFqdn :: "string \<Rightarrow> bool" where
  "plain_IsFqdn s \<longleftrightarrow> s \<noteq> [] \<and> last s = CHR ''.''"

definition plain_Fqdn :: "string \<Rightarrow> string" where
  "plain_Fqdn s = (if plain_IsFqdn s then s else s @ ''.'')"

definition plain_Split :: "string \<Rightarrow> nat list" where
  "plain_Split s =
     (if s = [] \<or> s = ''.'' then []
      else 0 # map Suc (filter (\<lambda>i. s ! i = CHR ''.'') [0..<length s - 1]))"

lemma plain_Split_shape:
  assumes "plain_Split s = i # is"
  shows "i = 0 \<and> sorted_wrt (<) (i # is) \<and> (\<forall>j \<in> set is. j < length s)"
proof -
  from assms have "s \<noteq> []" "i = 0" "is = map Suc (filter (\<lambda>i. s ! i = CHR ''.'') [0..<length s - 1])"
    by (auto simp: plain_Split_def split: if_splits)
  moreover have "sorted_wrt (<) (map Suc (filter (\<lambda>i. s ! i = CHR ''.'') [0..<length s - 1]))"
    by (simp add: sorted_wrt_map sorted_wrt_filter)
  ultimately show ?thesis by auto
qed

lemma plain_specs:
  assumes "IsFqdn L = plain_IsFqdn" and "Fqdn L = plain_Fqdn" and "dns_Split L = plain_Split"
  shows "fqdn_spec L" and "split_spec L"
proof -
  show "fqdn_spec L" by (simp add: fqdn_spec_def assms plain_Fqdn_def)
  have "plain_IsFqdn (drop j s)" if "plain_IsFqdn s" "plain_Split s = i # j # is" for s i j "is"
    using that plain_Split_shape [OF that(2)] by (auto simp: plain_IsFqdn_def last_drop)
  then show "split_spec L"
    using plain_Split_shape unfolding split_spec_def assms by blast
qed

text \<open>A library for the witnesses: names as above, signatures that name the key that made them.\<close>

definition sample_lib :: dns_lib where
  "sample_lib =
     \<lparr>IsFqdn = plain_IsFqdn, Fqdn = plain_Fqdn, dns_Split = plain_Split,
      KeyTag = (\<lambda>key. of_nat (length (key_PublicKey key))),
      ToDS = (\<lambda>key d. Some \<lparr>ds_Hdr = (key_Hdr key)\<lparr>hdr_Rrtype := TypeDS\<rparr>,
        ds_KeyTag = of_nat (length (key_PublicKey key)), ds_Algorithm = key_Algorithm key,
        ds_DigestType = d, ds_Digest = key_PublicKey key\<rparr>),
      Verify = (\<lambda>s key rrs. if sig_Signature s = key_PublicKey key then None else Some ''bad signature''),
      NewRR = (\<lambda>s. if HasPrefix s ''$'' then Inr None else Inl ''syntax error''),
      SetQuestion = (\<lambda>m name t. m\<lparr>Msg_Question := [\<lparr>q_Name = name, q_Qtype = t, q_Qclass = ClassINET\<rparr>]\<rparr>),
      SetEdns0 = (\<lambda>m size do. m\<lparr>Extra := Extra m @ [RR_OPT \<lparr>hdr_Name = ''.'', hdr_Rrtype = TypeOPT,
        hdr_Class = size, hdr_Ttl = (if do then 0x8000 else 0)\<rparr> []]\<rparr>),
      IsEdns0 = (\<lambda>m. find (\<lambda>i. case Extra m ! i of RR_OPT _ _ \<Rightarrow> True | _ \<Rightarrow> False) [0..<length (Extra m)]),
      SetDo = (\<lambda>r. case r of RR_OPT h d \<Rightarrow> RR_OPT (h\<lparr>hdr_Ttl := 0x8000\<rparr>) d | _ \<Rightarrow> r),
      SetReply = (\<lambda>m req. m\<lparr>Id := Id req, Msg_Question := Msg_Question req\<rparr>),
      SetRcode = (\<lambda>m req c. m\<lparr>Id := Id req, Rcode := c, Msg_Question := Msg_Question req\<rparr>),
      HandleFailed = (\<lambda>req. new_Msg\<lparr>Id := Id req, Rcode := RcodeServerFailure, Msg_Question := Msg_Question req\<rparr>),
      Type_String = (\<lambda>t. Itoa (uint t)), Class_String = (\<lambda>c. Itoa (uint c)),
      Pack = (\<lambda>m. Inl ''not packed''), Unpack = (\<lambda>s. Inl ''not a message'')\<rparr>"

lemma sample_lib_specs: "fqdn_spec sample_lib" "split_spec sample_lib"
  by (rule plain_specs; simp add: sample_lib_def)+

end
