(* ===== verification/Trust_Anchors.thy ===== *)
theory Trust_Anchors
  imports Dns
begin

text \<open>
  The stores of the DNSSEC validator: the trust anchors and their file (\<open>trust_anchor.go\<close>) and the
  cache of DS records (\<open>cache.go\<close>, with the clock as an argument). The parser of resource records
  is library code, a field of the argument \<open>L\<close>.
\<close>

section \<open>Trust anchors\<close>

record TrustAnchorManager =
  anchors :: "(16 word, DNSKEY) fmap"

definition NewTrustAnchorManager :: TrustAnchorManager where
  "NewTrustAnchorManager = \<lparr>anchors = fmempty\<rparr>"

definition TrustAnchor_Add :: "dns_lib \<Rightarrow> TrustAnchorManager \<Rightarrow> DNSKEY \<Rightarrow> TrustAnchorManager" where
  "TrustAnchor_Add L m dnskey = m\<lparr>anchors := fmupd (KeyTag L dnskey) dnskey (anchors m)\<rparr>"

definition TrustAnchor_Get :: "TrustAnchorManager \<Rightarrow> 16 word \<Rightarrow> DNSKEY option" where
  "TrustAnchor_Get m keyTag = fmlookup (anchors m) keyTag"

text \<open>The lines of the file. When a line has no record, \<open>rr\<close> is the \<open>nil\<close> interface and the
  warning calls its method \<open>Header\<close>.\<close>

fun load_anchors :: "dns_lib \<Rightarrow> string list \<Rightarrow> TrustAnchorManager \<Rightarrow> TrustAnchorManager outcome" where
  "load_anchors L [] m = Return m"
| "load_anchors L (text # texts) m =
     (let line = TrimSpace text in
      if line = [] \<or> HasPrefix line '';'' then load_anchors L texts m
      else case NewRR L line of
        Inl err \<Rightarrow> load_anchors L texts m
      | Inr None \<Rightarrow> Panic ''nil pointer dereference''
      | Inr (Some (RR_DNSKEY dnskey)) \<Rightarrow> load_anchors L texts (TrustAnchor_Add L m dnskey)
      | Inr (Some _) \<Rightarrow> load_anchors L texts m)"

datatype load_error = OpenFailed string | ReadFailed string

definition LoadFromFile ::
  "dns_lib \<Rightarrow> filesystem \<Rightarrow> TrustAnchorManager \<Rightarrow> string \<Rightarrow> (load_error option \<times> TrustAnchorManager) outcome" where
  "LoadFromFile L fs m path =
     (case fs path of
        None \<Rightarrow> Return (Some (OpenFailed path), m)
      | Some f \<Rightarrow>
          bind_outcome (load_anchors L (fst (Scanner f)) m)
            (\<lambda>m'. Return (if snd (Scanner f) then Some (ReadFailed path) else None, m')))"

section \<open>The cache of DS records\<close>

record dsData =
  data_keyTag :: "16 word"
  data_algorithm :: "8 word"
  data_digestType :: "8 word"
  data_digest :: "byte list"
  data_delegation :: "DS option"
  data_chain :: "DS list"
  data_expiration :: time

record DNSSECCache =
  dsEntries :: "(string, dsData) fmap"

definition NewDNSSECCache :: DNSSECCache where
  "NewDNSSECCache = \<lparr>dsEntries = fmempty\<rparr>"

definition GetDS :: "time \<Rightarrow> DNSSECCache \<Rightarrow> string \<Rightarrow> dsData option" where
  "GetDS now c name =
     (case fmlookup (dsEntries c) name of
        None \<Rightarrow> None
      | Some data \<Rightarrow> if now > data_expiration data then None else Some data)"

definition ds_ttl :: "dsData \<Rightarrow> duration" where
  "ds_ttl data =
     (case data_delegation data of
        Some ds \<Rightarrow> if hdr_Ttl (ds_Hdr ds) > 0 then int64 (uint (hdr_Ttl (ds_Hdr ds)) * Second) else 3600 * Second
      | None \<Rightarrow> 3600 * Second)"

definition SetDS :: "time \<Rightarrow> DNSSECCache \<Rightarrow> string \<Rightarrow> dsData \<Rightarrow> DNSSECCache" where
  "SetDS now c name data =
     c\<lparr>dsEntries := fmupd name (data\<lparr>data_expiration := now + ds_ttl data\<rparr>) (dsEntries c)\<rparr>"

section \<open>Trust anchor files\<close>

definition skipped_line :: "string \<Rightarrow> bool" where
  "skipped_line text \<longleftrightarrow> TrimSpace text = [] \<or> HasPrefix (TrimSpace text) '';''"

definition line_key :: "dns_lib \<Rightarrow> string \<Rightarrow> DNSKEY option" where
  "line_key L text =
     (if skipped_line text then None
      else case NewRR L (TrimSpace text) of Inr (Some (RR_DNSKEY key)) \<Rightarrow> Some key | _ \<Rightarrow> None)"

definition no_record :: "dns_lib \<Rightarrow> string \<Rightarrow> bool" where
  "no_record L text \<longleftrightarrow> \<not> skipped_line text \<and> NewRR L (TrimSpace text) = Inr None"

definition last_key :: "dns_lib \<Rightarrow> 16 word \<Rightarrow> DNSKEY list \<Rightarrow> DNSKEY option" where
  "last_key L tag keys = find (\<lambda>key. KeyTag L key = tag) (rev keys)"

lemma find_append: "find P (xs @ ys) = (case find P xs of Some x \<Rightarrow> Some x | None \<Rightarrow> find P ys)"
  by (induction xs) auto

lemma load_anchors_step:
  "\<not> no_record L text \<Longrightarrow>
     load_anchors L (text # texts) m =
       load_anchors L texts (case line_key L text of None \<Rightarrow> m | Some key \<Rightarrow> TrustAnchor_Add L m key)"
  by (auto simp: no_record_def line_key_def skipped_line_def Let_def
      split: sum.splits option.splits rr.splits)

lemma load_anchors_Panic:
  "no_record L text \<Longrightarrow> load_anchors L (text # texts) m = Panic ''nil pointer dereference''"
  by (auto simp: no_record_def skipped_line_def Let_def)

lemma load_anchors_spec:
  "if \<exists>text \<in> set texts. no_record L text then \<exists>e. load_anchors L texts m = Panic e
   else \<exists>m'. load_anchors L texts m = Return m' \<and>
     (\<forall>tag. TrustAnchor_Get m' tag =
        (case last_key L tag (List.map_filter (line_key L) texts) of
           Some key \<Rightarrow> Some key | None \<Rightarrow> TrustAnchor_Get m tag))"
proof (induction texts arbitrary: m)
  case (Cons ln texts)
  let ?m = "case line_key L ln of None \<Rightarrow> m | Some key \<Rightarrow> TrustAnchor_Add L m key"
  show ?case
  proof (cases "no_record L ln")
    case False
    note step = load_anchors_step [OF False, of texts m]
    have get: "TrustAnchor_Get ?m tag =
        (case line_key L ln of
           Some key \<Rightarrow> if KeyTag L key = tag then Some key else TrustAnchor_Get m tag
         | None \<Rightarrow> TrustAnchor_Get m tag)" for tag
      by (auto simp: TrustAnchor_Get_def TrustAnchor_Add_def split: option.splits)
    have keys: "last_key L tag (List.map_filter (line_key L) (ln # texts)) =
        (case last_key L tag (List.map_filter (line_key L) texts) of
           Some key \<Rightarrow> Some key
         | None \<Rightarrow> (case line_key L ln of
             Some key \<Rightarrow> if KeyTag L key = tag then Some key else None | None \<Rightarrow> None))" for tag
      by (auto simp: last_key_def List.map_filter_simps find_append split: option.splits)
    show ?thesis
    proof (cases "\<exists>t \<in> set texts. no_record L t")
      case True
      with Cons.IH [of ?m] show ?thesis unfolding step by auto
    next
      case no: False
      with Cons.IH [of ?m] obtain m' where m': "load_anchors L texts ?m = Return m'"
        and tags: "TrustAnchor_Get m' tag = (case last_key L tag (List.map_filter (line_key L) texts) of
          Some key \<Rightarrow> Some key | None \<Rightarrow> TrustAnchor_Get ?m tag)" for tag by auto
      have "TrustAnchor_Get m' tag = (case last_key L tag (List.map_filter (line_key L) (ln # texts)) of
          Some key \<Rightarrow> Some key | None \<Rightarrow> TrustAnchor_Get m tag)" for tag
        unfolding keys tags get
        by (cases "last_key L tag (List.map_filter (line_key L) texts)"; cases "line_key L ln") simp_all
      with no False m' show ?thesis unfolding step by simp
    qed
  qed (use load_anchors_Panic in auto)
qed (simp add: List.map_filter_simps last_key_def)

lemma LoadFromFile_open:
  "fs path = Some f \<Longrightarrow> LoadFromFile L fs m path =
     bind_outcome (load_anchors L (fst (Scanner f)) m)
       (\<lambda>m'. Return (if snd (Scanner f) then Some (ReadFailed path) else None, m'))"
  by (simp add: LoadFromFile_def)


definition ttl_file :: os_file where
  "ttl_file = \<lparr>content = ''$TTL'', read_err = False\<rparr>"


section \<open>Entries of the DS cache\<close>

lemma ds_ttl_pos: "0 < ds_ttl data"
proof -
  have "int64 (uint t * Second) = uint t * Second" for t :: "32 word"
  proof -
    have "0 \<le> uint t" "uint t < 4294967296" using uint_lt2p [of t] by simp_all
    then show ?thesis by (intro int64_id; simp; linarith)
  qed
  then show ?thesis by (auto simp: ds_ttl_def word_less_def split: option.splits)
qed

text \<open>The cache of DS records: an entry is found from the time it was stored until its time to
  live is over, which is that of its delegation, or an hour without one; it is never stored as
  expired, and storing it changes no other entry.\<close>

theorem ds_cache_lookup:
  "GetDS now' (SetDS now c name data) name' =
     (if name' \<noteq> name then GetDS now' c name'
      else if now + ds_ttl data < now' then None
      else Some (data\<lparr>data_expiration := now + ds_ttl data\<rparr>)) \<and>
   GetDS now (SetDS now c name data) name \<noteq> None"
  using ds_ttl_pos [of data] by (simp add: GetDS_def SetDS_def)

end
