(* ===== verification/Dnssec.thy ===== *)
theory Dnssec
  imports Trust_Anchors
begin

text \<open>
  The DNSSEC validator of \<open>features/dnssec\<close>: the grouping of signed records (\<open>helper.go\<close>) and the
  validation of a response along the chain of trust (\<open>dnssec.go\<close>), on top of the trust anchors and
  the cache of DS records.

  The functions of the DNS package are the argument \<open>L\<close>. The network and the clock are the argument
  \<open>E\<close>, acting on a state \<open>w\<close> that is threaded through the calls in their order, so that nothing is
  assumed about answers: each call may be answered differently. The recursion of \<open>validateChain\<close>
  follows what the network answers, so it has fuel, and \<open>None\<close> is running out of it; that a
  number of rounds given by the length of the first name is always enough is a theorem below.
  A panic of the source is a \<open>Panic\<close>. The errors are a datatype, a wrapped error a constructor
  with the error inside.
\<close>

section \<open>Signed groups\<close>

definition CreateDSFromDNSKEY :: "dns_lib \<Rightarrow> DNSKEY option \<Rightarrow> string + DS option" where
  "CreateDSFromDNSKEY L dnskey =
     (case dnskey of
        None \<Rightarrow> Inl ''DNSKEY cannot be nil''
      | Some key \<Rightarrow> Inr (ToDS L key digest_SHA256))"

type_synonym groups = "(string, rr list) fmap"

definition append_group :: "string \<Rightarrow> rr \<Rightarrow> groups \<Rightarrow> groups" where
  "append_group name r m =
     fmupd name ((case fmlookup m name of None \<Rightarrow> [] | Some rrs \<Rightarrow> rrs) @ [r]) m"

definition covers :: "RRSIG \<Rightarrow> rr \<Rightarrow> bool" where
  "covers rrsig r \<longleftrightarrow>
     hdr_Name (Header r) = hdr_Name (sig_Hdr rrsig) \<and>
     hdr_Class (Header r) = hdr_Class (sig_Hdr rrsig) \<and>
     hdr_Rrtype (Header r) = sig_TypeCovered rrsig"

fun add_covered :: "rr list \<Rightarrow> RRSIG \<Rightarrow> groups \<Rightarrow> groups" where
  "add_covered [] rrsig m = m"
| "add_covered (r # rs) rrsig m =
     add_covered rs rrsig (if covers rrsig r then append_group (hdr_Name (sig_Hdr rrsig)) r m else m)"

fun group_loop :: "rr list \<Rightarrow> rr list \<Rightarrow> groups \<Rightarrow> groups" where
  "group_loop [] allRRs m = m"
| "group_loop (r # rs) allRRs m =
     (case r of
        RR_RRSIG rrsig \<Rightarrow>
          group_loop rs allRRs
            (append_group (hdr_Name (sig_Hdr rrsig)) (RR_RRSIG rrsig) (add_covered allRRs rrsig m))
      | _ \<Rightarrow> group_loop rs allRRs m)"

definition groupSignedRRsets :: "Msg \<Rightarrow> groups" where
  "groupSignedRRsets msg =
     (let allRRs = Answer msg @ Ns msg @ Extra msg in group_loop allRRs allRRs fmempty)"

fun findRRSIGInRRset :: "rr list \<Rightarrow> RRSIG option" where
  "findRRSIGInRRset [] = None"
| "findRRSIGInRRset (r # rs) = (case r of RR_RRSIG s \<Rightarrow> Some s | _ \<Rightarrow> findRRSIGInRRset rs)"

fun findDNSKEYForRRSIG :: "dns_lib \<Rightarrow> rr list \<Rightarrow> RRSIG \<Rightarrow> DNSKEY option" where
  "findDNSKEYForRRSIG L [] rrsig = None"
| "findDNSKEYForRRSIG L (r # rs) rrsig =
     (case r of
        RR_DNSKEY key \<Rightarrow>
          if hdr_Name (key_Hdr key) = sig_SignerName rrsig \<and> KeyTag L key = sig_KeyTag rrsig
          then Some key else findDNSKEYForRRSIG L rs rrsig
      | _ \<Rightarrow> findDNSKEYForRRSIG L rs rrsig)"

definition parent :: "dns_lib \<Rightarrow> string \<Rightarrow> string" where
  "parent L s =
     (let s' = Fqdn L s; i = dns_Split L s' in if length i > 1 then drop (i ! 1) s' else [])"

section \<open>Queries to the nameservers of the parent zone\<close>

record 'w dns_env =
  Exchange :: "string \<Rightarrow> Msg \<Rightarrow> string \<Rightarrow> 'w \<Rightarrow> (string + Msg) \<times> 'w"
  Unix :: "'w \<Rightarrow> int \<times> 'w"

datatype fetch_error =
    NSQueryFailed string string
  | NoNSAddress string
  | NoServerAnswered string

abbreviation (input) bootstrap :: string where
  "bootstrap \<equiv> ''8.8.8.8:53''"

definition ns_query :: "dns_lib \<Rightarrow> string \<Rightarrow> 16 word \<Rightarrow> Msg" where
  "ns_query L zone qtype = SetEdns0 L (SetQuestion L new_Msg (Fqdn L zone) qtype) 4096 True"

fun ns_owners :: "rr list \<Rightarrow> string list" where
  "ns_owners [] = []"
| "ns_owners (r # rs) = (case r of RR_NS h _ \<Rightarrow> hdr_Name h # ns_owners rs | _ \<Rightarrow> ns_owners rs)"

fun a_addrs :: "rr list \<Rightarrow> string list" where
  "a_addrs [] = []"
| "a_addrs (r # rs) = (case r of RR_A _ a \<Rightarrow> (IP_String a @ '':53'') # a_addrs rs | _ \<Rightarrow> a_addrs rs)"

definition query_addr :: "dns_lib \<Rightarrow> 'w dns_env \<Rightarrow> string \<Rightarrow> 'w \<Rightarrow> string list \<times> 'w" where
  "query_addr L E nsName w =
     (case Exchange E [] (SetQuestion L new_Msg nsName TypeA) bootstrap w of
        (Inl err, w') \<Rightarrow> ([], w')
      | (Inr aResponse, w') \<Rightarrow>
          if Rcode aResponse \<noteq> RcodeSuccess then ([], w') else (a_addrs (Answer aResponse), w'))"

fun addr_loop :: "dns_lib \<Rightarrow> 'w dns_env \<Rightarrow> string list \<Rightarrow> 'w \<Rightarrow> string list \<times> 'w" where
  "addr_loop L E [] w = ([], w)"
| "addr_loop L E (nsName # nsNames) w =
     (let (addrs, w1) = query_addr L E nsName w; (rest, w2) = addr_loop L E nsNames w1
      in (addrs @ rest, w2))"

fun try_servers :: "'w dns_env \<Rightarrow> Msg \<Rightarrow> string list \<Rightarrow> 'w \<Rightarrow> Msg option \<times> 'w" where
  "try_servers E query [] w = (None, w)"
| "try_servers E query (nsAddr # nsAddrs) w =
     (case Exchange E [] query nsAddr w of
        (Inr response, w') \<Rightarrow>
          if Rcode response = RcodeSuccess then (Some response, w') else try_servers E query nsAddrs w'
      | (Inl err, w') \<Rightarrow> try_servers E query nsAddrs w')"

definition fetchDSFromParent ::
  "dns_lib \<Rightarrow> 'w dns_env \<Rightarrow> string \<Rightarrow> string \<Rightarrow> 'w \<Rightarrow> (fetch_error + Msg) \<times> 'w" where
  "fetchDSFromParent L E parentZone zone w =
     (case Exchange E [] (ns_query L parentZone TypeNS) bootstrap w of
        (Inl err, w1) \<Rightarrow> (Inl (NSQueryFailed parentZone err), w1)
      | (Inr nsResponse, w1) \<Rightarrow>
          let nsServers = ns_owners (Ns nsResponse); (nsAddrs, w2) = addr_loop L E nsServers w1 in
          if nsAddrs = [] then (Inl (NoNSAddress parentZone), w2)
          else case try_servers E (ns_query L zone TypeDS) nsAddrs w2 of
            (Some response, w3) \<Rightarrow> (Inr response, w3)
          | (None, w3) \<Rightarrow> (Inl (NoServerAnswered zone), w3))"

text \<open>The other query resolves each nameserver in the loop over the records of the answer.\<close>

fun key_addr_loop :: "dns_lib \<Rightarrow> 'w dns_env \<Rightarrow> rr list \<Rightarrow> 'w \<Rightarrow> string list \<times> 'w" where
  "key_addr_loop L E [] w = ([], w)"
| "key_addr_loop L E (r # rs) w =
     (case r of
        RR_NS h _ \<Rightarrow>
          let (addrs, w1) = query_addr L E (hdr_Name h) w; (rest, w2) = key_addr_loop L E rs w1
          in (addrs @ rest, w2)
      | _ \<Rightarrow> key_addr_loop L E rs w)"

definition fetchDNSKEYsFromParent ::
  "dns_lib \<Rightarrow> 'w dns_env \<Rightarrow> string \<Rightarrow> 'w \<Rightarrow> (fetch_error + Msg) \<times> 'w" where
  "fetchDNSKEYsFromParent L E parentZone w =
     (case Exchange E [] (ns_query L parentZone TypeNS) bootstrap w of
        (Inl err, w1) \<Rightarrow> (Inl (NSQueryFailed parentZone err), w1)
      | (Inr nsResponse, w1) \<Rightarrow>
          let (nsAddrs, w2) = key_addr_loop L E (Ns nsResponse) w1 in
          if nsAddrs = [] then (Inl (NoNSAddress parentZone), w2)
          else case try_servers E (ns_query L parentZone TypeDNSKEY) nsAddrs w2 of
            (Some response, w3) \<Rightarrow> (Inr response, w3)
          | (None, w3) \<Rightarrow> (Inl (NoServerAnswered parentZone), w3))"

section \<open>The chain of trust\<close>

datatype dnssec_error =
    ErrNoRRSIG
  | ErrSignatureExpired
  | ErrDNSKEYNotFound
  | ErrDSKeyMismatch string "16 word"
  | ErrEmptyRRset
  | ErrSignatureNotYetValid
  | NoRecords
  | NoSignedRRsets
  | RRsetFailed string dnssec_error
  | VerificationFailed string
  | RootNotAnchor "16 word"
  | NoParentZone string
  | DSFetchFailed string string fetch_error
  | NoDSRecords string
  | NoDSSignature string
  | KeyFetchFailed string fetch_error
  | NoParentKey "16 word" string
  | DSVerificationFailed string string

record DNSSECValidator =
  trustAnchors :: TrustAnchorManager
  dsCache :: DNSSECCache

definition NewDNSSECValidator ::
  "dns_lib \<Rightarrow> filesystem \<Rightarrow> string \<Rightarrow> (load_error + DNSSECValidator) outcome" where
  "NewDNSSECValidator L fs path =
     (let v = \<lparr>trustAnchors = NewTrustAnchorManager, dsCache = NewDNSSECCache\<rparr> in
      if path \<noteq> [] then
        bind_outcome (LoadFromFile L fs (trustAnchors v) path)
          (\<lambda>(err, m). Return (case err of Some e \<Rightarrow> Inl e | None \<Rightarrow> Inr (v\<lparr>trustAnchors := m\<rparr>)))
      else Return (Inr v))"

definition AddTrustAnchor :: "dns_lib \<Rightarrow> DNSSECValidator \<Rightarrow> 16 word \<Rightarrow> DNSKEY \<Rightarrow> DNSSECValidator" where
  "AddTrustAnchor L v keyTag dnskey = v\<lparr>trustAnchors := TrustAnchor_Add L (trustAnchors v) dnskey\<rparr>"

definition GetTrustAnchor :: "DNSSECValidator \<Rightarrow> 16 word \<Rightarrow> DNSKEY option" where
  "GetTrustAnchor v keyTag = TrustAnchor_Get (trustAnchors v) keyTag"

definition is_anchor :: "dns_lib \<Rightarrow> DNSSECValidator \<Rightarrow> DNSKEY \<Rightarrow> bool" where
  "is_anchor L v key \<longleftrightarrow> TrustAnchor_Get (trustAnchors v) (KeyTag L key) \<noteq> None"

definition ds_of_zone :: "dns_lib \<Rightarrow> string \<Rightarrow> rr \<Rightarrow> bool" where
  "ds_of_zone L name r \<longleftrightarrow> hdr_Name (Header r) = Fqdn L name \<and> hdr_Rrtype (Header r) = TypeDS"

fun last_ds_sig :: "dns_lib \<Rightarrow> string \<Rightarrow> rr list \<Rightarrow> RRSIG option \<Rightarrow> RRSIG option" where
  "last_ds_sig L name [] found = found"
| "last_ds_sig L name (r # rs) found =
     (case r of
        RR_RRSIG s \<Rightarrow>
          last_ds_sig L name rs
            (if sig_TypeCovered s = TypeDS \<and> hdr_Name (sig_Hdr s) = Fqdn L name then Some s else found)
      | _ \<Rightarrow> last_ds_sig L name rs found)"

definition ds_matches :: "dns_lib \<Rightarrow> DNSKEY \<Rightarrow> DS \<Rightarrow> bool" where
  "ds_matches L key ds \<longleftrightarrow>
     (case ToDS L key (ds_DigestType ds) of
        None \<Rightarrow> False
      | Some generated \<Rightarrow> ds_KeyTag ds = ds_KeyTag generated \<and> ds_Digest ds = ds_Digest generated)"

fun ds_match_loop :: "dns_lib \<Rightarrow> DNSKEY \<Rightarrow> rr list \<Rightarrow> bool outcome" where
  "ds_match_loop L key [] = Return False"
| "ds_match_loop L key (r # rs) =
     (case r of
        RR_DS ds \<Rightarrow> if ds_matches L key ds then Return True else ds_match_loop L key rs
      | _ \<Rightarrow> Panic ''interface conversion: not *dns.DS'')"

fun find_parent_key :: "dns_lib \<Rightarrow> string \<Rightarrow> 16 word \<Rightarrow> rr list \<Rightarrow> DNSKEY option" where
  "find_parent_key L parentZone tag [] = None"
| "find_parent_key L parentZone tag (r # rs) =
     (case r of
        RR_DNSKEY key \<Rightarrow>
          if hdr_Name (key_Hdr key) = Fqdn L parentZone \<and> KeyTag L key = tag then Some key
          else find_parent_key L parentZone tag rs
      | _ \<Rightarrow> find_parent_key L parentZone tag rs)"

type_synonym 'w verdict = "(dnssec_error option \<times> 'w) outcome option"

text \<open>The DS records of a zone and their signature, from the parent.\<close>

definition get_ds :: "dns_lib \<Rightarrow> 'w dns_env \<Rightarrow> string \<Rightarrow> string \<Rightarrow> 'w \<Rightarrow> (dnssec_error + rr list \<times> RRSIG) \<times> 'w" where
  "get_ds L E parentZone zone w =
     (case fetchDSFromParent L E parentZone zone w of
        (Inl e, w1) \<Rightarrow> (Inl (DSFetchFailed zone parentZone e), w1)
      | (Inr response, w1) \<Rightarrow>
          let rrs = Answer response @ Ns response; dsRRset = filter (ds_of_zone L zone) rrs in
          if dsRRset = [] then (Inl (NoDSRecords zone), w1)
          else case last_ds_sig L zone rrs None of
            None \<Rightarrow> (Inl (NoDSSignature zone), w1)
          | Some dsRrsig \<Rightarrow> (Inr (dsRRset, dsRrsig), w1))"

text \<open>The parent's key that signed them, with the check of the signature.\<close>

definition get_parent_key ::
  "dns_lib \<Rightarrow> 'w dns_env \<Rightarrow> string \<Rightarrow> string \<Rightarrow> rr list \<Rightarrow> RRSIG \<Rightarrow> 'w \<Rightarrow> (dnssec_error + DNSKEY) \<times> 'w" where
  "get_parent_key L E parentZone zone dsRRset dsRrsig w =
     (case fetchDNSKEYsFromParent L E parentZone w of
        (Inl e, w1) \<Rightarrow> (Inl (KeyFetchFailed parentZone e), w1)
      | (Inr response, w1) \<Rightarrow>
          (case find_parent_key L parentZone (sig_KeyTag dsRrsig) (Answer response @ Ns response) of
             None \<Rightarrow> (Inl (NoParentKey (sig_KeyTag dsRrsig) parentZone), w1)
           | Some key \<Rightarrow>
               (case Verify L dsRrsig key dsRRset of
                  Some err \<Rightarrow> (Inl (DSVerificationFailed zone err), w1)
                | None \<Rightarrow> (Inr key, w1))))"

fun validateChain :: "nat \<Rightarrow> dns_lib \<Rightarrow> 'w dns_env \<Rightarrow> DNSSECValidator \<Rightarrow> DNSKEY \<Rightarrow> 'w \<Rightarrow> 'w verdict" where
  "validateChain 0 L E v dnskey w = None"
| "validateChain (Suc fuel) L E v dnskey w =
     (let zone = hdr_Name (key_Hdr dnskey); parentZone = parent L zone in
      if zone = ''.'' then Some (Return (Some (RootNotAnchor (KeyTag L dnskey)), w))
      else if parentZone = [] then Some (Return (Some (NoParentZone zone), w))
      else case get_ds L E parentZone zone w of
        (Inl e, w1) \<Rightarrow> Some (Return (Some e, w1))
      | (Inr (dsRRset, dsRrsig), w1) \<Rightarrow>
          (case ds_match_loop L dnskey dsRRset of
             Panic e \<Rightarrow> Some (Panic e)
           | Return False \<Rightarrow> Some (Return (Some (ErrDSKeyMismatch zone (KeyTag L dnskey)), w1))
           | Return True \<Rightarrow>
               (case get_parent_key L E parentZone zone dsRRset dsRrsig w1 of
                  (Inl e, w2) \<Rightarrow> Some (Return (Some e, w2))
                | (Inr parentSigningKey, w2) \<Rightarrow>
                    if is_anchor L v parentSigningKey then Some (Return (None, w2))
                    else validateChain fuel L E v parentSigningKey w2)))"

definition validateRRset :: "nat \<Rightarrow> dns_lib \<Rightarrow> 'w dns_env \<Rightarrow> DNSSECValidator \<Rightarrow> rr list \<Rightarrow> 'w \<Rightarrow> 'w verdict" where
  "validateRRset fuel L E v rrset w =
     (if rrset = [] then Some (Return (Some ErrEmptyRRset, w))
      else case findRRSIGInRRset rrset of
        None \<Rightarrow> Some (Return (Some ErrNoRRSIG, w))
      | Some rrsig \<Rightarrow>
          let (now1, w1) = Unix E w in
          if sig_Expiration rrsig < word_of_int now1 then Some (Return (Some ErrSignatureExpired, w1))
          else let (now2, w2) = Unix E w1 in
          if sig_Inception rrsig > word_of_int now2 then Some (Return (Some ErrSignatureNotYetValid, w2))
          else case findDNSKEYForRRSIG L rrset rrsig of
            None \<Rightarrow> Some (Return (Some ErrDNSKEYNotFound, w2))
          | Some dnskey \<Rightarrow>
              (case Verify L rrsig dnskey rrset of
                 Some err \<Rightarrow> Some (Return (Some (VerificationFailed err), w2))
               | None \<Rightarrow>
                   if is_anchor L v dnskey then Some (Return (None, w2))
                   else validateChain fuel L E v dnskey w2))"

text \<open>The loop over the groups, in the order of the range; a group is never empty.\<close>

fun validate_groups ::
  "nat \<Rightarrow> dns_lib \<Rightarrow> 'w dns_env \<Rightarrow> DNSSECValidator \<Rightarrow> rr list list \<Rightarrow> 'w \<Rightarrow> 'w verdict" where
  "validate_groups fuel L E v [] w = Some (Return (None, w))"
| "validate_groups fuel L E v (rrset # rrsets) w =
     (case validateRRset fuel L E v rrset w of
        None \<Rightarrow> None
      | Some (Panic e) \<Rightarrow> Some (Panic e)
      | Some (Return (Some err, w1)) \<Rightarrow>
          Some (Return (Some (RRsetFailed (hdr_Name (Header (hd rrset))) err), w1))
      | Some (Return (None, w1)) \<Rightarrow> validate_groups fuel L E v rrsets w1)"

definition Validate ::
  "nat \<Rightarrow> string list \<Rightarrow> dns_lib \<Rightarrow> 'w dns_env \<Rightarrow> DNSSECValidator \<Rightarrow> Msg \<Rightarrow> 'w \<Rightarrow> 'w verdict" where
  "Validate fuel ord L E v msg w =
     (if Answer msg = [] \<and> Ns msg = [] then Some (Return (Some NoRecords, w))
      else let signedRRsets = groupSignedRRsets msg in
        if map_len signedRRsets = 0 then Some (Return (Some NoSignedRRsets, w))
        else validate_groups fuel L E v (List.map_filter (fmlookup signedRRsets) ord) w)"

fun check_sigs :: "32 word \<Rightarrow> rr list \<Rightarrow> bool" where
  "check_sigs now [] = True"
| "check_sigs now (r # rs) =
     (case r of
        RR_RRSIG s \<Rightarrow>
          if now > sig_Expiration s then False
          else if now < sig_Inception s then False
          else check_sigs now rs
      | _ \<Rightarrow> check_sigs now rs)"

definition CheckDNSSECValidity :: "int \<Rightarrow> Msg \<Rightarrow> bool" where
  "CheckDNSSECValidity unix msg = check_sigs (word_of_int unix) (Answer msg @ Ns msg)"

section \<open>What the groups are\<close>

fun sigs_of :: "string \<Rightarrow> rr list \<Rightarrow> RRSIG list" where
  "sigs_of name [] = []"
| "sigs_of name (RR_RRSIG s # rs) =
     (if hdr_Name (sig_Hdr s) = name then s # sigs_of name rs else sigs_of name rs)"
| "sigs_of name (r # rs) = sigs_of name rs"

definition all_rrs :: "Msg \<Rightarrow> rr list" where
  "all_rrs msg = Answer msg @ Ns msg @ Extra msg"

definition sig_group :: "rr list \<Rightarrow> RRSIG \<Rightarrow> rr list" where
  "sig_group allRRs s = filter (covers s) allRRs @ [RR_RRSIG s]"

definition group_at :: "groups \<Rightarrow> string \<Rightarrow> rr list" where
  "group_at m name = (case fmlookup m name of None \<Rightarrow> [] | Some rrs \<Rightarrow> rrs)"

lemma group_at_append_group:
  "group_at (append_group name r m) n = (if n = name then group_at m n @ [r] else group_at m n)"
  by (auto simp: group_at_def append_group_def)

lemma group_at_add_covered:
  "group_at (add_covered rs s m) n =
     (if n = hdr_Name (sig_Hdr s) then group_at m n @ filter (covers s) rs else group_at m n)"
  by (induction rs s m rule: add_covered.induct) (auto simp: group_at_append_group)

lemma group_at_group_loop:
  "group_at (group_loop rs allRRs m) n =
     group_at m n @ concat (map (sig_group allRRs) (sigs_of n rs))"
  by (induction rs allRRs m rule: group_loop.induct)
     (auto simp: group_at_append_group group_at_add_covered sig_group_def split: rr.splits)

definition groups_ok :: "groups \<Rightarrow> bool" where
  "groups_ok m \<longleftrightarrow> (\<forall>n. fmlookup m n \<noteq> Some [])"

lemma groups_ok_append_group: "groups_ok m \<Longrightarrow> groups_ok (append_group n r m)"
  by (auto simp: groups_ok_def append_group_def)

lemma groups_ok_add_covered: "groups_ok m \<Longrightarrow> groups_ok (add_covered rs s m)"
  by (induction rs s m rule: add_covered.induct) (auto simp: groups_ok_append_group)

lemma groups_ok_group_loop: "groups_ok m \<Longrightarrow> groups_ok (group_loop rs allRRs m)"
  by (induction rs allRRs m rule: group_loop.induct)
     (auto simp: groups_ok_append_group groups_ok_add_covered split: rr.splits)

lemma lookup_group_at:
  "groups_ok m \<Longrightarrow> fmlookup m n = (if group_at m n = [] then None else Some (group_at m n))"
  by (auto simp: groups_ok_def group_at_def split: option.splits)

lemma sig_group_not_Nil [simp]: "sig_group allRRs s \<noteq> []"
  by (simp add: sig_group_def)

lemma lookup_groupSignedRRsets:
  "fmlookup (groupSignedRRsets msg) n =
     (if sigs_of n (all_rrs msg) = [] then None
      else Some (concat (map (sig_group (all_rrs msg)) (sigs_of n (all_rrs msg)))))"
proof -
  have "groups_ok (groupSignedRRsets msg)"
    unfolding groupSignedRRsets_def Let_def
    by (rule groups_ok_group_loop) (simp add: groups_ok_def)
  moreover have "group_at (groupSignedRRsets msg) n =
      concat (map (sig_group (all_rrs msg)) (sigs_of n (all_rrs msg)))"
    by (simp add: groupSignedRRsets_def Let_def group_at_group_loop all_rrs_def)
       (simp add: group_at_def)
  ultimately show ?thesis
    by (cases "sigs_of n (all_rrs msg)") (simp_all add: lookup_group_at)
qed

lemma sigs_of_set: "s \<in> set (sigs_of n rs) \<longleftrightarrow> RR_RRSIG s \<in> set rs \<and> hdr_Name (sig_Hdr s) = n"
  by (induction n rs rule: sigs_of.induct) auto

lemma group_subset:
  "fmlookup (groupSignedRRsets msg) n = Some rrs \<Longrightarrow> set rrs \<subseteq> set (all_rrs msg)"
  by (auto simp: lookup_groupSignedRRsets sig_group_def sigs_of_set split: if_splits)

lemma group_not_Nil: "fmlookup (groupSignedRRsets msg) n = Some rrs \<Longrightarrow> rrs \<noteq> []"
  by (cases "sigs_of n (all_rrs msg)") (auto simp: lookup_groupSignedRRsets)

section \<open>Termination of the chain\<close>

lemma parent_shorter:
  assumes "fqdn_spec L" and "split_spec L" and "IsFqdn L zone" and "parent L zone \<noteq> []"
  shows "length (parent L zone) < length zone" and "IsFqdn L (parent L zone)"
proof -
  have z: "Fqdn L zone = zone" using assms(1,3) by (simp add: fqdn_spec_def)
  with assms(4) obtain i j "is" where sp: "dns_Split L zone = i # j # is"
    by (cases "dns_Split L zone"; cases "tl (dns_Split L zone)") (auto simp: parent_def Let_def)
  then have p: "parent L zone = drop j zone" by (simp add: parent_def Let_def z)
  from assms(2) sp have "i = 0" "i < j" "j < length zone"
    unfolding split_spec_def by fastforce+
  with p show "length (parent L zone) < length zone" by simp
  from assms(2,3) sp p show "IsFqdn L (parent L zone)" unfolding split_spec_def by metis
qed

lemma find_parent_key_Some:
  "find_parent_key L parentZone tag rs = Some key \<Longrightarrow>
     RR_DNSKEY key \<in> set rs \<and> hdr_Name (key_Hdr key) = Fqdn L parentZone \<and> KeyTag L key = tag"
  by (induction L parentZone tag rs rule: find_parent_key.induct) (auto split: rr.splits if_splits)

lemma get_parent_key_Some:
  assumes "get_parent_key L E parentZone zone dsRRset dsRrsig w = (Inr key, w')"
  shows "hdr_Name (key_Hdr key) = Fqdn L parentZone \<and> KeyTag L key = sig_KeyTag dsRrsig \<and>
         Verify L dsRrsig key dsRRset = None"
  using assms find_parent_key_Some
  by (fastforce simp: get_parent_key_def split: prod.splits sum.splits option.splits)

lemma chain_returns:
  assumes "fqdn_spec L" and "split_spec L"
  shows "IsFqdn L (hdr_Name (key_Hdr key)) \<Longrightarrow> length (hdr_Name (key_Hdr key)) < fuel \<Longrightarrow>
           validateChain fuel L E v key w \<noteq> None"
proof (induction fuel arbitrary: key w)
  case (Suc fuel)
  let ?zone = "hdr_Name (key_Hdr key)"
  have next_key: "validateChain fuel L E v pkey w2 \<noteq> None"
    if "parent L ?zone \<noteq> []" "get_parent_key L E (parent L ?zone) ?zone rrs sig w1 = (Inr pkey, w2)"
    for rrs sig w1 pkey w2
  proof (rule Suc.IH)
    note shorter = parent_shorter [OF assms Suc.prems(1) that(1)]
    have "hdr_Name (key_Hdr pkey) = parent L ?zone"
      using get_parent_key_Some [OF that(2)] shorter(2) assms(1) by (simp add: fqdn_spec_def)
    with shorter Suc.prems(2) show "IsFqdn L (hdr_Name (key_Hdr pkey))"
      and "length (hdr_Name (key_Hdr pkey)) < fuel" by simp_all
  qed
  show ?case
    using next_key
    by (simp add: Let_def split: prod.splits sum.splits outcome.splits bool.splits)
qed simp

lemma findDNSKEY_Some:
  "findDNSKEYForRRSIG L rs s = Some key \<Longrightarrow>
     RR_DNSKEY key \<in> set rs \<and> hdr_Name (key_Hdr key) = sig_SignerName s \<and> KeyTag L key = sig_KeyTag s"
  by (induction L rs s rule: findDNSKEYForRRSIG.induct) (auto split: rr.splits if_splits)

lemma rrset_returns:
  assumes "fqdn_spec L" and "split_spec L"
    and "\<And>key. RR_DNSKEY key \<in> set rrs \<Longrightarrow>
           IsFqdn L (hdr_Name (key_Hdr key)) \<and> length (hdr_Name (key_Hdr key)) < fuel"
  shows "validateRRset fuel L E v rrs w \<noteq> None"
proof -
  have "validateChain fuel L E v key w2 \<noteq> None" if "findDNSKEYForRRSIG L rrs s = Some key" for s key w2
    using that assms(3) [of key] findDNSKEY_Some [OF that]
    by (intro chain_returns [OF assms(1,2)]) auto
  then show ?thesis by (simp add: validateRRset_def split: option.splits prod.splits)
qed

section \<open>Soundness of the chain\<close>

text \<open>A key is trusted when it is a trust anchor, or when a DS record of its zone matches it, and
  the DS records of the zone are signed by a trusted key of the parent zone.\<close>

inductive trusted :: "dns_lib \<Rightarrow> DNSSECValidator \<Rightarrow> DNSKEY \<Rightarrow> bool" for L v where
  anchor: "is_anchor L v key \<Longrightarrow> trusted L v key"
| delegated: "\<lbrakk>hdr_Name (key_Hdr key) \<noteq> ''.''; parent L (hdr_Name (key_Hdr key)) \<noteq> [];
      \<forall>r \<in> set dsRRset. ds_of_zone L (hdr_Name (key_Hdr key)) r;
      RR_DS ds \<in> set dsRRset; ds_matches L key ds;
      sig_TypeCovered s = TypeDS; hdr_Name (sig_Hdr s) = Fqdn L (hdr_Name (key_Hdr key));
      hdr_Name (key_Hdr pkey) = Fqdn L (parent L (hdr_Name (key_Hdr key)));
      KeyTag L pkey = sig_KeyTag s; Verify L s pkey dsRRset = None; trusted L v pkey\<rbrakk>
    \<Longrightarrow> trusted L v key"

lemma last_ds_sig_Some:
  "last_ds_sig L zone rs found = Some s \<Longrightarrow>
     found = Some s \<or> sig_TypeCovered s = TypeDS \<and> hdr_Name (sig_Hdr s) = Fqdn L zone"
  by (induction L zone rs found rule: last_ds_sig.induct) (auto split: rr.splits if_splits)

lemma ds_match_loop_True:
  "ds_match_loop L key rs = Return True \<Longrightarrow> \<exists>ds. RR_DS ds \<in> set rs \<and> ds_matches L key ds"
  by (induction L key rs rule: ds_match_loop.induct) (auto split: rr.splits if_splits)

lemma get_ds_Some:
  assumes "get_ds L E parentZone zone w = (Inr (dsRRset, s), w')"
  shows "(\<forall>r \<in> set dsRRset. ds_of_zone L zone r) \<and> sig_TypeCovered s = TypeDS \<and>
         hdr_Name (sig_Hdr s) = Fqdn L zone"
  using assms last_ds_sig_Some [of L zone _ None s]
  by (auto simp: get_ds_def Let_def split: prod.splits sum.splits option.splits if_splits)

lemma chain_sound:
  "validateChain fuel L E v key w = Some (Return (None, w')) \<Longrightarrow> trusted L v key"
proof (induction fuel arbitrary: key w)
  case (Suc fuel)
  let ?zone = "hdr_Name (key_Hdr key)"
  from Suc.prems obtain dsRRset s w1 pkey w2 where
    zone: "?zone \<noteq> ''.''" "parent L ?zone \<noteq> []"
    and ds: "get_ds L E (parent L ?zone) ?zone w = (Inr (dsRRset, s), w1)"
    and match: "ds_match_loop L key dsRRset = Return True"
    and pkey: "get_parent_key L E (parent L ?zone) ?zone dsRRset s w1 = (Inr pkey, w2)"
    and rest: "is_anchor L v pkey \<or> validateChain fuel L E v pkey w2 = Some (Return (None, w'))"
    by (auto simp: Let_def split: if_splits prod.splits sum.splits outcome.splits bool.splits)
  from rest Suc.IH have "trusted L v pkey" by (auto intro: trusted.anchor)
  with zone get_ds_Some [OF ds] ds_match_loop_True [OF match] get_parent_key_Some [OF pkey]
  show ?case by (auto intro: trusted.delegated)
qed simp

lemma findRRSIG_Some: "findRRSIGInRRset rs = Some s \<Longrightarrow> RR_RRSIG s \<in> set rs"
  by (induction rs) (auto split: rr.splits)

text \<open>A group is secured at a time by its first signature, which a trusted key of the group made.\<close>

definition secured :: "dns_lib \<Rightarrow> DNSSECValidator \<Rightarrow> 32 word \<Rightarrow> rr list \<Rightarrow> bool" where
  "secured L v t rrs \<longleftrightarrow>
     (\<exists>s key. findRRSIGInRRset rrs = Some s \<and> sig_Inception s \<le> t \<and> t \<le> sig_Expiration s \<and>
        RR_DNSKEY key \<in> set rrs \<and> hdr_Name (key_Hdr key) = sig_SignerName s \<and>
        KeyTag L key = sig_KeyTag s \<and> Verify L s key rrs = None \<and> trusted L v key)"

lemma rrset_sound:
  assumes ok: "validateRRset fuel L E v rrs w = Some (Return (None, w'))"
    and clock: "\<And>w. fst (Unix E w) = t"
  shows "secured L v (word_of_int t) rrs"
proof -
  obtain w1 where w1: "Unix E w = (t, w1)" by (metis clock prod.collapse)
  obtain w2 where w2: "Unix E w1 = (t, w2)" by (metis clock prod.collapse)
  from ok obtain s key where
    s: "findRRSIGInRRset rrs = Some s" "\<not> sig_Expiration s < word_of_int t" "\<not> sig_Inception s > word_of_int t"
    and key: "findDNSKEYForRRSIG L rrs s = Some key" "Verify L s key rrs = None"
    and chain: "is_anchor L v key \<or> validateChain fuel L E v key w2 = Some (Return (None, w'))"
    by (auto simp: validateRRset_def w1 w2 split: if_splits option.splits)
  from chain have "trusted L v key" by (auto intro: trusted.anchor chain_sound)
  with s key findDNSKEY_Some [OF key(1)] show ?thesis
    by (auto simp: secured_def not_less)
qed

lemma groups_sound:
  "validate_groups fuel L E v rrsets w = Some (Return (None, w')) \<Longrightarrow> (\<And>w. fst (Unix E w) = t) \<Longrightarrow>
     rrs \<in> set rrsets \<Longrightarrow> secured L v (word_of_int t) rrs"
proof (induction rrsets arbitrary: w)
  case (Cons rrset rrsets)
  from Cons.prems(1) obtain w1 where
    "validateRRset fuel L E v rrset w = Some (Return (None, w1))"
    "validate_groups fuel L E v rrsets w1 = Some (Return (None, w'))"
    by (auto split: option.splits outcome.splits prod.splits)
  then show ?case
    using Cons.IH Cons.prems(2,3) rrset_sound [of fuel L E v rrset w w1 t] by auto
qed simp

section \<open>Verdicts that need no chain\<close>

lemma findDNSKEY_None: "\<forall>key. RR_DNSKEY key \<notin> set rs \<Longrightarrow> findDNSKEYForRRSIG L rs s = None"
  by (induction L rs s rule: findDNSKEYForRRSIG.induct) (auto split: rr.splits)

lemma no_key_rrset:
  "\<forall>key. RR_DNSKEY key \<notin> set rrs \<Longrightarrow> \<exists>err w'. validateRRset fuel L E v rrs w = Some (Return (Some err, w'))"
  by (auto simp: validateRRset_def findDNSKEY_None split: option.splits prod.splits)

lemma no_key_groups:
  assumes "\<forall>key. RR_DNSKEY key \<notin> set rrset"
  shows "\<exists>err w'. validate_groups fuel L E v (rrset # rrsets) w = Some (Return (Some err, w'))"
  using no_key_rrset [OF assms, of fuel L E v w] by auto

text \<open>The key of a signature is looked up among the records of the response itself, so a response
  without DNSKEY records never validates.\<close>

lemma no_key_Validate:
  assumes "\<And>key. RR_DNSKEY key \<notin> set (all_rrs msg)" and "range_order ord (groupSignedRRsets msg)"
  shows "\<exists>err w'. Validate fuel ord L E v msg w = Some (Return (Some err, w'))"
proof (cases "groupSignedRRsets msg = fmempty")
  case False
  then obtain rrset rrsets where gs: "List.map_filter (fmlookup (groupSignedRRsets msg)) ord = rrset # rrsets"
    using range_order_first [OF assms(2)] by blast
  then have "set rrset \<subseteq> set (all_rrs msg)"
    using range_order_values group_subset by (metis list.set_intros(1))
  with assms(1) have "\<forall>key. RR_DNSKEY key \<notin> set rrset" by blast
  from no_key_groups [OF this, of fuel L E v rrsets w] gs False show ?thesis
    by (simp add: Validate_def Let_def map_len_0_iff)
qed (simp add: Validate_def)

lemma sigs_of_no_sig: "(\<And>s. r \<noteq> RR_RRSIG s) \<Longrightarrow> sigs_of n (xs @ r # ys) = sigs_of n (xs @ ys)"
proof (induction n xs rule: sigs_of.induct)
  case (1 n)
  then show ?case by (cases r) auto
qed auto

lemma groups_uncovered:
  assumes "\<And>s. r \<noteq> RR_RRSIG s" and "\<And>s. RR_RRSIG s \<in> set (xs @ ys) \<Longrightarrow> \<not> covers s r"
    and "all_rrs msg = xs @ ys" and "all_rrs msg' = xs @ r # ys"
  shows "groupSignedRRsets msg' = groupSignedRRsets msg"
proof (rule fmap_ext)
  fix n
  have "sig_group (xs @ r # ys) s = sig_group (xs @ ys) s" if "s \<in> set (sigs_of n (xs @ ys))" for s
    using that assms(2) by (simp add: sig_group_def sigs_of_set)
  then show "fmlookup (groupSignedRRsets msg') n = fmlookup (groupSignedRRsets msg) n"
    using assms(3,4)
    by (simp add: lookup_groupSignedRRsets sigs_of_no_sig [OF assms(1)] cong: map_cong)
qed

section \<open>Properties\<close>


text \<open>C12: Validation returns: with fully qualified names of the keys in the response, as the names
  of parsed messages are, the climb along the chain of trust takes at most as many rounds as the
  name of the first key has bytes, whatever the network answers.\<close>

theorem validate_terminates:
  assumes "fqdn_spec L" and "split_spec L"
    and "\<And>key. RR_DNSKEY key \<in> set (all_rrs msg) \<Longrightarrow>
           IsFqdn L (hdr_Name (key_Hdr key)) \<and> length (hdr_Name (key_Hdr key)) < fuel"
  shows "Validate fuel ord L E v msg w \<noteq> None"
proof -
  have "validate_groups fuel L E v rrsets w \<noteq> None"
    if "\<forall>rrs \<in> set rrsets. set rrs \<subseteq> set (all_rrs msg)" for rrsets w
    using that
  proof (induction rrsets arbitrary: w)
    case (Cons rrs rrsets)
    have "validateRRset fuel L E v rrs w \<noteq> None"
      by (rule rrset_returns [OF assms(1,2)]) (use Cons.prems assms(3) in auto)
    with Cons show ?case by (auto split: outcome.splits prod.splits option.splits)
  qed simp
  moreover have "\<forall>rrs \<in> set (List.map_filter (fmlookup (groupSignedRRsets msg)) ord).
      set rrs \<subseteq> set (all_rrs msg)"
    using range_order_values group_subset by fast
  ultimately show ?thesis by (simp add: Validate_def Let_def)
qed

text \<open>C29: Records that no signature covers are not looked at: adding one to the answer of a response
  leaves the verdict as it was, so a response with one valid group validates together with any
  number of unsigned records.\<close>

theorem unsigned_records_pass:
  assumes "\<And>s. r \<noteq> RR_RRSIG s" and "\<And>s. RR_RRSIG s \<in> set (all_rrs msg) \<Longrightarrow> \<not> covers s r"
    and "Answer msg \<noteq> []"
  shows "Validate fuel ord L E v (msg\<lparr>Answer := Answer msg @ [r]\<rparr>) w = Validate fuel ord L E v msg w"
proof -
  have "groupSignedRRsets (msg\<lparr>Answer := Answer msg @ [r]\<rparr>) = groupSignedRRsets msg"
    by (rule groups_uncovered [OF assms(1), of "Answer msg" "Ns msg @ Extra msg"])
       (use assms(2) in \<open>auto simp: all_rrs_def\<close>)
  with assms(3) show ?thesis by (simp add: Validate_def)
qed


section \<open>A sample response\<close>

definition root_key :: "string \<Rightarrow> DNSKEY" where
  "root_key pub = \<lparr>key_Hdr = \<lparr>hdr_Name = ''.'', hdr_Rrtype = TypeDNSKEY, hdr_Class = ClassINET, hdr_Ttl = 3600\<rparr>,
     key_Algorithm = 8, key_PublicKey = pub\<rparr>"

definition root_sig :: "string \<Rightarrow> RRSIG" where
  "root_sig pub = \<lparr>sig_Hdr = \<lparr>hdr_Name = ''.'', hdr_Rrtype = 46, hdr_Class = ClassINET, hdr_Ttl = 3600\<rparr>,
     sig_TypeCovered = TypeDNSKEY, sig_KeyTag = 2, sig_SignerName = ''.'', sig_Expiration = 200,
     sig_Inception = 100, sig_Signature = pub\<rparr>"

definition root_msg :: "string \<Rightarrow> Msg" where
  "root_msg pub = new_Msg\<lparr>Answer := [RR_DNSKEY (root_key pub), RR_RRSIG (root_sig pub)]\<rparr>"

definition sample_env :: "unit dns_env" where
  "sample_env = \<lparr>Exchange = (\<lambda>_ _ _ w. (Inl ''timeout'', w)), Unix = (\<lambda>w. (150, w))\<rparr>"

definition sample_validator :: DNSSECValidator where
  "sample_validator = AddTrustAnchor sample_lib
     \<lparr>trustAnchors = NewTrustAnchorManager, dsCache = NewDNSSECCache\<rparr> 2 (root_key ''k1'')"

lemma sample_lib_simps:
  "KeyTag sample_lib key = of_nat (length (key_PublicKey key))"
  "Verify sample_lib s key rrs = (if sig_Signature s = key_PublicKey key then None else Some ''bad signature'')"
  "IsFqdn sample_lib = plain_IsFqdn"
  by (simp_all add: sample_lib_def)

lemma sample_simps:
  "fst (Unix sample_env w) = 150" "key_PublicKey (root_key pub) = pub" "key_Hdr (root_key pub) =
     \<lparr>hdr_Name = ''.'', hdr_Rrtype = TypeDNSKEY, hdr_Class = ClassINET, hdr_Ttl = 3600\<rparr>"
  "sig_Signature (root_sig pub) = pub" "sig_KeyTag (root_sig pub) = 2" "sig_SignerName (root_sig pub) = ''.''"
  "sig_Inception (root_sig pub) = 100" "sig_Expiration (root_sig pub) = 200"
  "hdr_Name (sig_Hdr (root_sig pub)) = ''.''" "Answer (root_msg pub) \<noteq> []"
  "covers (root_sig pub) (RR_DNSKEY (root_key pub))" "\<not> covers (root_sig pub) (RR_RRSIG (root_sig pub))"
  by (simp_all add: sample_env_def root_key_def root_sig_def root_msg_def covers_def TypeDNSKEY_def)

lemma root_msg_all: "all_rrs (root_msg pub) = [RR_DNSKEY (root_key pub), RR_RRSIG (root_sig pub)]"
  by (simp add: all_rrs_def root_msg_def new_Msg_def)

lemma sample_anchor: "TrustAnchor_Get (trustAnchors sample_validator) 2 = Some (root_key ''k1'')"
  by (simp add: TrustAnchor_Get_def sample_validator_def AddTrustAnchor_def TrustAnchor_Add_def
      NewTrustAnchorManager_def sample_lib_def root_key_def)

lemma root_group: "fmlookup (groupSignedRRsets (root_msg pub)) n =
    (if n = ''.'' then Some [RR_DNSKEY (root_key pub), RR_RRSIG (root_sig pub)] else None)"
  by (simp add: lookup_groupSignedRRsets root_msg_all sig_group_def covers_def root_key_def root_sig_def
      TypeDNSKEY_def)

lemma root_range: "range_order [''.''] (groupSignedRRsets (root_msg pub))"
proof -
  have "fmdom (groupSignedRRsets (root_msg pub)) = {|''.''|}"
    by (rule fset_eqI) (simp add: fmlookup_dom_iff root_group)
  then show ?thesis by (simp add: range_order_def)
qed


lemma sample_validates:
  "\<exists>w'. Validate 1 [''.''] sample_lib sample_env sample_validator (root_msg ''k1'') () =
     Some (Return (None, w'))"
proof -
  have "Unix sample_env () = (150, ())" by (simp add: sample_env_def)
  moreover have "is_anchor sample_lib sample_validator (root_key ''k1'')"
    using sample_anchor by (simp add: is_anchor_def sample_lib_simps sample_simps)
  moreover have "groupSignedRRsets (root_msg ''k1'') \<noteq> fmempty"
    using root_group [of "''k1''" "''.''"] by auto
  ultimately show ?thesis
    by (simp add: Validate_def Let_def map_len_0_iff List.map_filter_simps root_group validateRRset_def
        sample_lib_simps sample_simps)
qed


theorem validate_terminates_witness:
  "Validate 2 [''.''] sample_lib sample_env sample_validator (root_msg ''zz'') () \<noteq> None"
  by (rule validate_terminates [OF sample_lib_specs])
     (auto simp: root_msg_all sample_simps sample_lib_simps plain_IsFqdn_def)

definition unsigned_msg :: Msg where
  "unsigned_msg = new_Msg\<lparr>Answer := [RR_A \<lparr>hdr_Name = ''a.'', hdr_Rrtype = TypeA, hdr_Class = ClassINET,
     hdr_Ttl = 60\<rparr> [10, 0, 0, 1]]\<rparr>"

lemma unsigned_range: "range_order [] (groupSignedRRsets unsigned_msg)"
proof -
  have "fmlookup (groupSignedRRsets unsigned_msg) n = None" for n
    by (simp add: lookup_groupSignedRRsets all_rrs_def unsigned_msg_def new_Msg_def)
  then have "groupSignedRRsets unsigned_msg = fmempty" by (intro fmap_ext) simp
  then show ?thesis by (simp add: range_order_def)
qed

theorem unsigned_records_pass_witness:
  "\<exists>w'. Validate 1 [''.''] sample_lib sample_env sample_validator
     ((root_msg ''k1'')\<lparr>Answer := Answer (root_msg ''k1'') @ Answer unsigned_msg\<rparr>) () = Some (Return (None, w'))"
proof -
  let ?r = "RR_A \<lparr>hdr_Name = ''a.'', hdr_Rrtype = TypeA, hdr_Class = ClassINET, hdr_Ttl = 60\<rparr> [10, 0, 0, 1]"
  have a: "Answer unsigned_msg = [?r]" by (simp add: unsigned_msg_def)
  have "Validate 1 [''.''] sample_lib sample_env sample_validator
      ((root_msg ''k1'')\<lparr>Answer := Answer (root_msg ''k1'') @ [?r]\<rparr>) () =
    Validate 1 [''.''] sample_lib sample_env sample_validator (root_msg ''k1'') ()"
    by (rule unsigned_records_pass) (auto simp: root_msg_all sample_simps covers_def)
  with sample_validates show ?thesis by (simp only: a)
qed

section \<open>The nameservers that are asked\<close>

text \<open>Both queries look the nameservers up in the same way.\<close>

lemma key_addr_loop_eq: "key_addr_loop L E rs w = addr_loop L E (ns_owners rs) w"
  by (induction rs arbitrary: w) (auto split: rr.splits prod.splits)

text \<open>Answers with other names of nameservers, and the network that gives them.\<close>

fun retarget :: "(string \<Rightarrow> string) \<Rightarrow> rr \<Rightarrow> rr" where
  "retarget f (RR_NS h target) = RR_NS h (f target)"
| "retarget f r = r"

definition retarget_msg :: "(string \<Rightarrow> string) \<Rightarrow> Msg \<Rightarrow> Msg" where
  "retarget_msg f m = m\<lparr>Answer := map (retarget f) (Answer m), Ns := map (retarget f) (Ns m)\<rparr>"

definition retarget_env :: "(string \<Rightarrow> string) \<Rightarrow> 'w dns_env \<Rightarrow> 'w dns_env" where
  "retarget_env f E = E\<lparr>Exchange := (\<lambda>net q addr w. map_prod (map_sum id (retarget_msg f)) id (Exchange E net q addr w))\<rparr>"

lemma ns_owners_retarget: "ns_owners (map (retarget f) rs) = ns_owners rs"
  by (induction rs) (auto split: rr.splits elim: retarget.elims)

lemma a_addrs_retarget: "a_addrs (map (retarget f) rs) = a_addrs rs"
  by (induction rs) (auto split: rr.splits elim: retarget.elims)

lemma query_addr_retarget: "query_addr L (retarget_env f E) n w = query_addr L E n w"
  by (auto simp: query_addr_def retarget_env_def retarget_msg_def a_addrs_retarget
      split: prod.splits sum.splits)

lemma addr_loop_retarget: "addr_loop L (retarget_env f E) ns w = addr_loop L E ns w"
  by (induction ns arbitrary: w) (simp_all add: query_addr_retarget)

lemma try_servers_retarget:
  "try_servers (retarget_env f E) q addrs w = map_prod (map_option (retarget_msg f)) id (try_servers E q addrs w)"
  by (induction addrs arbitrary: w)
     (auto simp: retarget_env_def retarget_msg_def split: prod.splits sum.splits)

text \<open>The names of the nameservers in the NS records of a parent zone are never used: the owner
  name of the record (the zone) is resolved in their place, so answers that differ in these names
  only lead to the same queries and the same result.\<close>

theorem ns_targets_ignored:
  "fetchDSFromParent L (retarget_env f E) parentZone zone w =
     map_prod (map_sum id (retarget_msg f)) id (fetchDSFromParent L E parentZone zone w) \<and>
   fetchDNSKEYsFromParent L (retarget_env f E) parentZone w =
     map_prod (map_sum id (retarget_msg f)) id (fetchDNSKEYsFromParent L E parentZone w)"
proof -
  have ex: "Exchange (retarget_env f E) net q addr w =
      map_prod (map_sum id (retarget_msg f)) id (Exchange E net q addr w)" for net q addr w
    by (simp add: retarget_env_def)
  show ?thesis
    unfolding fetchDSFromParent_def fetchDNSKEYsFromParent_def ex
    by (auto simp: key_addr_loop_eq addr_loop_retarget try_servers_retarget retarget_msg_def ns_owners_retarget
        split: prod.splits sum.splits option.splits)
qed

end
