(* ===== verification/Go_Float.thy ===== *)
theory Go_Float
  imports Go_Prelude
begin

text \<open>
  The part of Go's \<open>float64\<close> arithmetic that the resolver uses, exactly: rounding to 53 significant
  bits, ties to even, on integers in a unit small enough for the exact result. Products and sums
  of \<open>int64\<close> values with the constants 0.9 and 0.1 stay far from the limits of the exponent, so
  rounding the significand is all there is. The operations are rounded one by one (no fused
  multiply-add).
\<close>

function bit_len :: "int \<Rightarrow> nat" where
  "bit_len n = (if n \<le> 0 then 0 else Suc (bit_len (n div 2)))"
  by pat_completeness auto
termination by (relation "measure nat") auto

declare bit_len.simps [simp del]

text \<open>Division of a non-negative number by \<open>2 ^ k\<close>, rounded to the nearest integer, to the even one
  of two.\<close>

definition round_shift :: "nat \<Rightarrow> int \<Rightarrow> int" where
  "round_shift k n =
     (let q = n div 2 ^ k; r = n mod 2 ^ k in
      if 2 * r < 2 ^ k \<or> (2 * r = 2 ^ k \<and> even q) then q else q + 1)"

definition round53 :: "int \<Rightarrow> int" where
  "round53 n = (let k = bit_len n - 53 in if k = 0 then n else round_shift k n * 2 ^ k)"

definition float_round :: "int \<Rightarrow> int" where
  "float_round x = sgn x * round53 \<bar>x\<bar>"

text \<open>The constants: 0.9 is this multiple of \<open>2 ^ - 53\<close>, 0.1 of \<open>2 ^ - 56\<close>.\<close>

definition float_0_9 :: int where "float_0_9 = 8106479329266893"
definition float_0_1 :: int where "float_0_1 = 7205759403792794"

text \<open>\<open>time.Duration(float64(a)*0.9 + float64(b)*0.1)\<close>; the sum is a multiple of \<open>2 ^ - 56\<close>.\<close>

definition ema :: "duration \<Rightarrow> duration \<Rightarrow> duration" where
  "ema a b =
     int64 (quot (float_round (float_round (float_round a * float_0_9) * 8 +
                               float_round (float_round b * float_0_1))) (2 ^ 56))"

section \<open>Error bounds\<close>

lemma bit_len_lower: "0 < n \<Longrightarrow> 2 ^ (bit_len n - 1) \<le> n"
proof (induction n rule: bit_len.induct)
  case (1 n)
  show ?case
  proof (cases "n div 2 = 0")
    case True
    with "1.prems" show ?thesis by (simp add: bit_len.simps [of n] bit_len.simps [of 0])
  next
    case False
    then have pos: "0 < n div 2" using "1.prems" by simp
    then have "2 ^ (bit_len (n div 2) - 1) \<le> n div 2" using 1 by simp
    moreover have "bit_len (n div 2) \<noteq> 0" using pos by (simp add: bit_len.simps [of "n div 2"])
    then have "(2::int) ^ bit_len (n div 2) = 2 * 2 ^ (bit_len (n div 2) - 1)"
      by (cases "bit_len (n div 2)") simp_all
    ultimately have "2 ^ bit_len (n div 2) \<le> n" by linarith
    with "1.prems" show ?thesis by (simp add: bit_len.simps [of n])
  qed
qed

lemma round_shift_bounds:
  "2 * (round_shift k n * 2 ^ k) \<le> 2 * n + 2 ^ k \<and> 2 * n \<le> 2 * (round_shift k n * 2 ^ k) + 2 ^ k"
proof -
  define q r where "q = n div 2 ^ k" and "r = n mod 2 ^ k"
  have n: "n = q * 2 ^ k + r" unfolding q_def r_def by (rule div_mult_mod_eq [symmetric])
  have r: "0 \<le> r" "r < 2 ^ k" unfolding r_def by simp_all
  have "round_shift k n = (if 2 * r < 2 ^ k \<or> (2 * r = 2 ^ k \<and> even q) then q else q + 1)"
    unfolding round_shift_def Let_def q_def r_def ..
  then show ?thesis using n r by (auto simp: algebra_simps)
qed

lemma round53_error:
  assumes "0 \<le> n"
  shows "0 \<le> round53 n \<and> 2 ^ 53 * round53 n \<le> (2 ^ 53 + 1) * n \<and> (2 ^ 53 - 1) * n \<le> 2 ^ 53 * round53 n"
proof (cases "bit_len n \<le> 53")
  case False
  define k where "k = bit_len n - 53"
  have k: "0 < k" "bit_len n - 1 = k + 52" using False by (simp_all add: k_def)
  have pos: "0 < n" using False assms by (cases "n = 0") (simp_all add: bit_len.simps [of 0])
  then have "2 ^ (k + 52) \<le> n" using bit_len_lower [of n] k by simp
  then have small: "2 ^ k * 4503599627370496 \<le> n" by (simp add: power_add)
  have r: "round53 n = round_shift k n * 2 ^ k" using k by (simp add: round53_def k_def [symmetric])
  define z where "z = round_shift k n * 2 ^ k"
  define p where "p = (2::int) ^ k"
  from round_shift_bounds [of k n] have "2 * z \<le> 2 * n + p" "2 * n \<le> 2 * z + p"
    by (simp_all add: z_def p_def)
  moreover have "0 < p" "p * 4503599627370496 \<le> n" using small by (simp_all add: p_def)
  ultimately show ?thesis unfolding r z_def [symmetric] by simp
qed (use assms in \<open>simp add: round53_def\<close>)

lemma float_round_error:
  assumes "0 \<le> x"
  shows "0 \<le> float_round x" and "2 ^ 53 * float_round x \<le> (2 ^ 53 + 1) * x"
    and "(2 ^ 53 - 1) * x \<le> 2 ^ 53 * float_round x"
proof -
  have "float_round x = round53 x"
    using assms by (cases "x = 0") (simp_all add: float_round_def round53_def bit_len.simps [of 0] sgn_if)
  with round53_error [OF assms] show "0 \<le> float_round x" "2 ^ 53 * float_round x \<le> (2 ^ 53 + 1) * x"
    "(2 ^ 53 - 1) * x \<le> 2 ^ 53 * float_round x" by simp_all
qed

text \<open>An \<open>int64\<close> below \<open>2 ^ 53\<close> is its own \<open>float64\<close>.\<close>

lemma float_round_exact:
  assumes "0 \<le> x" and "x < 2 ^ 53"
  shows "float_round x = x"
proof (cases "x = 0")
  case False
  then have "2 ^ (bit_len x - 1) \<le> x" using assms by (intro bit_len_lower) simp
  with assms(2) have "(2::int) ^ (bit_len x - 1) < 2 ^ 53" by linarith
  then have "bit_len x - 1 < 53" by (simp only: power_strict_increasing_iff)
  then have "bit_len x - 53 = 0" by simp
  with assms show ?thesis by (simp add: float_round_def round53_def sgn_if)
qed (simp add: float_round_def)

lemma ema_exact_form:
  assumes "0 \<le> a" "a < 2 ^ 50" "0 \<le> b" "b < 2 ^ 50"
  defines "s \<equiv> float_round (float_round (a * float_0_9) * 8 + float_round (b * float_0_1))"
  shows "0 \<le> s" and "2 ^ 106 * s \<le> (2 ^ 53 + 1) ^ 2 * (a * (float_0_9 * 8) + b * float_0_1)"
    and "(2 ^ 53 - 1) ^ 2 * (a * (float_0_9 * 8) + b * float_0_1) \<le> 2 ^ 106 * s"
proof -
  have p: "0 \<le> a * float_0_9" "0 \<le> b * float_0_1"
    using assms by (simp_all add: float_0_9_def float_0_1_def)
  note e1 = float_round_error [OF p(1)] and e2 = float_round_error [OF p(2)]
  let ?t = "float_round (a * float_0_9) * 8 + float_round (b * float_0_1)"
  have t: "0 \<le> ?t" using e1(1) e2(1) by simp
  note e3 = float_round_error [OF t]
  show "0 \<le> s" unfolding s_def by (rule e3(1))
  show "2 ^ 106 * s \<le> (2 ^ 53 + 1) ^ 2 * (a * (float_0_9 * 8) + b * float_0_1)"
    "(2 ^ 53 - 1) ^ 2 * (a * (float_0_9 * 8) + b * float_0_1) \<le> 2 ^ 106 * s"
    using e1(2,3) e2(2,3) e3(2,3) unfolding s_def [symmetric] by simp_all
qed

lemma ema_bounds:
  assumes "0 \<le> a" "a < 2 ^ 50" "0 \<le> b" "b < 2 ^ 50"
  shows "0 \<le> ema a b \<and> min a b - 1 \<le> ema a b \<and> ema a b \<le> max a b"
proof -
  define s where "s = float_round (float_round (a * float_0_9) * 8 + float_round (b * float_0_1))"
  note f = ema_exact_form [OF assms, folded s_def]
  have e: "ema a b = int64 (s div 2 ^ 56)"
    using assms f(1) by (simp add: ema_def s_def float_round_exact quot_def sgn_if)
  define m where "m = max a b"
  have lo: "min a b * (2 ^ 56 + 2) \<le> a * (float_0_9 * 8) + b * float_0_1"
    and hi: "a * (float_0_9 * 8) + b * float_0_1 \<le> m * (2 ^ 56 + 2)"
    using assms by (auto simp: float_0_9_def float_0_1_def m_def min_def max_def)
  have "2 ^ 106 * s \<le> (2 ^ 53 + 1) ^ 2 * (m * (2 ^ 56 + 2))"
    using f(2) hi by simp
  moreover have "m < 2 ^ 50" using assms by (simp add: m_def)
  ultimately have "s < (m + 1) * 2 ^ 56" by simp
  then have up: "s div 2 ^ 56 \<le> m" by (simp add: zless_add1_eq [symmetric] div_less_iff_less_mult)
  have "(2 ^ 53 - 1) ^ 2 * (min a b * (2 ^ 56 + 2)) \<le> 2 ^ 106 * s"
    using f(3) lo by simp
  moreover have "min a b < 2 ^ 50" using assms by simp
  ultimately have "(min a b - 1) * 2 ^ 56 \<le> s" by simp
  then have low: "min a b - 1 \<le> s div 2 ^ 56" using zdiv_mono1 [of "(min a b - 1) * 2 ^ 56" s "2 ^ 56"] by simp
  have "int64 (s div 2 ^ 56) = s div 2 ^ 56"
    using up f(1) \<open>m < 2 ^ 50\<close> by (intro int64_id) (simp_all add: pos_imp_zdiv_nonneg_iff)
  moreover have "0 \<le> s div 2 ^ 56" using f(1) by (simp add: pos_imp_zdiv_nonneg_iff)
  ultimately show ?thesis using up low by (simp add: e m_def)
qed

end
