(* ===== verification/Resolver.thy ===== *)
theory Resolver
  imports Suffix_Tree Settings Dnssec Go_Float "HOL-Library.Multiset"
begin

text \<open>
  The resolver of \<open>resolver.go\<close> but for the concurrency of \<open>Lookup\<close>, which is the theory
  \<open>Lookup\<close>: construction, the list of servers, the choice of nameservers for a query, the
  request that is sent, and the two updates of the round-trip times. The two clients differ in
  their network only; an exchange is given the name of the network.

  \<open>sort.Slice\<close> may reorder equal elements. Since the order in which the range delivers the servers
  is arbitrary, a stable sort after an arbitrary order covers every outcome. The parser of
  \<open>resolv.conf\<close> is library code: an argument that gives the servers and the port, or fails.
\<close>

section \<open>The model\<close>

record RResp =
  resp_msg :: Msg
  resp_nameserver :: string
  resp_rtt :: duration

record nameserverState =
  ns_addr :: string
  ns_rtt :: duration

record Resolver =
  servers :: "string list"
  domain_server :: suffixTreeNode
  resolv_config :: ResolvSettings
  dnssecValidator :: DNSSECValidator
  rttServers :: "(string, nameserverState) fmap"

datatype ResolvError = ResolvError string string "string list"

definition addPort :: "string \<Rightarrow> string \<Rightarrow> string" where
  "addPort server port =
     (case SplitHostPort server of None \<Rightarrow> JoinHostPort server port | Some _ \<Rightarrow> server)"

definition server_of_line :: "string \<Rightarrow> string option" where
  "server_of_line text =
     (let line = TrimSpace text in
      if HasPrefix line ''#'' \<or> line = [] then None
      else let pair = Split line (CHR '':'') in
        Some (if length pair = 2 then JoinHostPort (pair ! 0) (pair ! 1) else JoinHostPort line ''53''))"

definition ReadServerListFile :: "filesystem \<Rightarrow> Resolver \<Rightarrow> string \<Rightarrow> Resolver" where
  "ReadServerListFile fs r filePath =
     (if filePath = [] then r
      else case fs filePath of
        None \<Rightarrow> r
      | Some f \<Rightarrow> r\<lparr>servers := servers r @ List.map_filter server_of_line (fst (Scanner f))\<rparr>)"

definition default_servers :: "string list" where
  "default_servers = [''8.8.8.8:53'', ''8.8.4.4:53'']"

definition init_rtt :: "duration \<Rightarrow> string list \<Rightarrow> (string, nameserverState) fmap" where
  "init_rtt timeout addrs =
     fold (\<lambda>server m. fmupd server \<lparr>ns_addr = server, ns_rtt = timeout\<rparr> m) addrs fmempty"

definition load_resolv_file ::
  "(string \<Rightarrow> (string list \<times> string) option) \<Rightarrow> string \<Rightarrow> Resolver \<Rightarrow> Resolver outcome" where
  "load_resolv_file resolv_conf path r =
     (if path \<noteq> [] then
        (case resolv_conf path of
           None \<Rightarrow> Panic ''not a valid resolv.conf file''
         | Some (hosts, port) \<Rightarrow>
             Return (r\<lparr>servers := servers r @ map (\<lambda>server. JoinHostPort server port) hosts\<rparr>))
      else Return r)"

definition NewResolver ::
  "dns_lib \<Rightarrow> filesystem \<Rightarrow> (string \<Rightarrow> (string list \<times> string) option) \<Rightarrow> ResolvSettings \<Rightarrow>
     (load_error + Resolver) outcome" where
  "NewResolver L fs resolv_conf c =
     bind_outcome (NewDNSSECValidator L fs (TrustAnchorFile c)) (\<lambda>res. case res of
        Inl err \<Rightarrow> Return (Inl err)
      | Inr v \<Rightarrow>
          let r = \<lparr>servers = [], domain_server = newSuffixTreeRoot, resolv_config = c,
                   dnssecValidator = v, rttServers = fmempty\<rparr>;
              r1 = (if ServerListFile c \<noteq> [] then ReadServerListFile fs r (ServerListFile c) else r)
          in bind_outcome (load_resolv_file resolv_conf (ResolvFile c) r1)
            (\<lambda>r2. Return (Inr (r2\<lparr>rttServers := init_rtt (seconds (Timeout c))
               (if servers r2 \<noteq> [] then servers r2 else default_servers)\<rparr>))))"

definition Nameservers :: "string list \<Rightarrow> Resolver \<Rightarrow> string \<Rightarrow> string list" where
  "Nameservers ord r qname =
     (let queryKeys = Split (TrimByte (CHR ''.'') qname) (CHR ''.'');
          (v, found) = SearchDomain (domain_server r) queryKeys in
      if found then map (\<lambda>value. addPort value ''53'') (Split v (CHR '',''))
      else
        let sortedServers =
          (if LoadBalanceEnable (resolv_config r)
           then map ns_addr (sort_key ns_rtt (List.map_filter (fmlookup (rttServers r)) ord)) else [])
        in if sortedServers \<noteq> [] then sortedServers
           else if servers r \<noteq> [] then servers r
           else default_servers)"

text \<open>The request that is sent: a copy with an OPT record if so configured, and with its DO bit set
  if signatures are wanted.\<close>

definition new_OPT :: rr where
  "new_OPT = RR_OPT \<lparr>hdr_Name = ''.'', hdr_Rrtype = TypeOPT, hdr_Class = 4096, hdr_Ttl = 0\<rparr> []"

definition prepare_request :: "dns_lib \<Rightarrow> ResolvSettings \<Rightarrow> Msg \<Rightarrow> Msg" where
  "prepare_request L c req =
     (if SetEDNS0 c then
        let (req', opt) = (case IsEdns0 L req of
              Some i \<Rightarrow> (req, i)
            | None \<Rightarrow> (req\<lparr>Extra := Extra req @ [new_OPT]\<rparr>, length (Extra req)))
        in if DNSSECEnable c then req'\<lparr>Extra := (Extra req')[opt := SetDo L (Extra req' ! opt)]\<rparr> else req'
      else req)"

definition set_rtt :: "string \<Rightarrow> (duration \<Rightarrow> duration) \<Rightarrow> Resolver \<Rightarrow> Resolver" where
  "set_rtt nameserver f r =
     (case fmlookup (rttServers r) nameserver of
        None \<Rightarrow> r
      | Some state \<Rightarrow>
          r\<lparr>rttServers := fmupd nameserver (state\<lparr>ns_rtt := f (ns_rtt state)\<rparr>) (rttServers r)\<rparr>)"

definition penalize :: "string \<Rightarrow> Resolver \<Rightarrow> Resolver" where
  "penalize nameserver r = set_rtt nameserver (\<lambda>_. seconds (Timeout (resolv_config r))) r"

definition reward :: "string \<Rightarrow> duration \<Rightarrow> Resolver \<Rightarrow> Resolver" where
  "reward nameserver rtt r = set_rtt nameserver (\<lambda>old. ema old rtt) r"

text \<open>What \<open>Lookup\<close> does with the response it took from the channel; the validator and its verdict are
  those of \<open>Validate\<close>. The message is returned in every case.\<close>

definition finish_lookup ::
  "nat \<Rightarrow> string list \<Rightarrow> dns_lib \<Rightarrow> 'w dns_env \<Rightarrow> RResp \<Rightarrow> Resolver \<Rightarrow> 'w \<Rightarrow>
     (Msg \<times> Resolver \<times> 'w) outcome option" where
  "finish_lookup fuel ord L E re r w =
     (let finish = (\<lambda>w'. (resp_msg re,
            (if LoadBalanceEnable (resolv_config r) then reward (resp_nameserver re) (resp_rtt re) r else r), w'))
      in if DNSSECEnable (resolv_config r) then
           (case Validate fuel ord L E (dnssecValidator r) (resp_msg re) w of
              None \<Rightarrow> None
            | Some (Panic e) \<Rightarrow> Some (Panic e)
            | Some (Return (Some err, w')) \<Rightarrow> Some (Return (resp_msg re, r, w'))
            | Some (Return (None, w')) \<Rightarrow> Some (Return (finish w')))
         else Some (Return (finish w)))"

section \<open>The pool of servers\<close>

text \<open>Each server is stored under its own address.\<close>

definition rtt_ok :: "Resolver \<Rightarrow> bool" where
  "rtt_ok r \<longleftrightarrow> (\<forall>a st. fmlookup (rttServers r) a = Some st \<longrightarrow> ns_addr st = a)"

text \<open>The contract of an update of the round-trip times: the servers stay the same.\<close>

locale pool_update =
  fixes update :: "'e \<Rightarrow> Resolver \<Rightarrow> Resolver"
  assumes frame: "servers (update e r) = servers r \<and> domain_server (update e r) = domain_server r \<and>
        resolv_config (update e r) = resolv_config r \<and> dnssecValidator (update e r) = dnssecValidator r"
    and same_addrs: "fmdom (rttServers (update e r)) = fmdom (rttServers r)"
    and keeps_ok: "rtt_ok r \<Longrightarrow> rtt_ok (update e r)"
begin

lemma run_frame:
  "servers (fold update es r) = servers r \<and> domain_server (fold update es r) = domain_server r \<and>
   resolv_config (fold update es r) = resolv_config r \<and> dnssecValidator (fold update es r) = dnssecValidator r"
  by (induction es arbitrary: r) (simp_all add: frame)

lemma run_addrs: "fmdom (rttServers (fold update es r)) = fmdom (rttServers r)"
  by (induction es arbitrary: r) (simp_all add: same_addrs)

lemma run_ok: "rtt_ok r \<Longrightarrow> rtt_ok (fold update es r)"
  by (induction es arbitrary: r) (simp_all add: keeps_ok)

end

lemma set_rtt_frame:
  "servers (set_rtt a f r) = servers r" "domain_server (set_rtt a f r) = domain_server r"
  "resolv_config (set_rtt a f r) = resolv_config r" "dnssecValidator (set_rtt a f r) = dnssecValidator r"
  "fmdom (rttServers (set_rtt a f r)) = fmdom (rttServers r)"
  by (auto simp: set_rtt_def fmdomI split: option.splits)

lemma set_rtt_lookup:
  "fmlookup (rttServers (set_rtt a f r)) b =
     (if b = a then map_option (\<lambda>st. st\<lparr>ns_rtt := f (ns_rtt st)\<rparr>) (fmlookup (rttServers r) a)
      else fmlookup (rttServers r) b)"
  by (auto simp: set_rtt_def split: option.splits)

lemma set_rtt_ok: "rtt_ok r \<Longrightarrow> rtt_ok (set_rtt a f r)"
  by (auto simp: rtt_ok_def set_rtt_lookup split: if_splits)

interpretation failures: pool_update penalize
  by unfold_locales (auto simp: penalize_def set_rtt_frame set_rtt_ok)

interpretation answers: pool_update "\<lambda>(a, rtt). reward a rtt"
  by unfold_locales (auto simp: reward_def set_rtt_frame set_rtt_ok)

datatype pool_event = Failed string | Answered string duration

fun pool_step :: "pool_event \<Rightarrow> Resolver \<Rightarrow> Resolver" where
  "pool_step (Failed a) r = penalize a r"
| "pool_step (Answered a rtt) r = reward a rtt r"

interpretation pool: pool_update pool_step
proof
  fix e r
  show "servers (pool_step e r) = servers r \<and> domain_server (pool_step e r) = domain_server r \<and>
      resolv_config (pool_step e r) = resolv_config r \<and> dnssecValidator (pool_step e r) = dnssecValidator r"
    using failures.frame answers.frame by (cases e) force+
  show "fmdom (rttServers (pool_step e r)) = fmdom (rttServers r)"
    using failures.same_addrs answers.same_addrs by (cases e) force+
  show "rtt_ok r \<Longrightarrow> rtt_ok (pool_step e r)"
    using failures.keeps_ok answers.keeps_ok by (cases e) force+
qed

section \<open>Construction\<close>

definition configured :: "Resolver \<Rightarrow> string list" where
  "configured r = (if servers r \<noteq> [] then servers r else default_servers)"

lemma init_rtt_run:
  "fmlookup (fold (\<lambda>server m. fmupd server \<lparr>ns_addr = server, ns_rtt = t\<rparr> m) addrs m) a =
     (if a \<in> set addrs then Some \<lparr>ns_addr = a, ns_rtt = t\<rparr> else fmlookup m a)"
  by (induction addrs arbitrary: m) auto

lemma init_rtt_lookup:
  "fmlookup (init_rtt t addrs) a = (if a \<in> set addrs then Some \<lparr>ns_addr = a, ns_rtt = t\<rparr> else None)"
  by (simp add: init_rtt_def init_rtt_run)

lemma init_rtt_dom: "fmdom (init_rtt t addrs) = fset_of_list addrs"
  by (rule fset_eqI) (simp add: fmlookup_dom_iff init_rtt_lookup fset_of_list_elem)

lemma load_frames:
  "domain_server (ReadServerListFile fs r path) = domain_server r"
  "resolv_config (ReadServerListFile fs r path) = resolv_config r"
  "load_resolv_file resolv_conf path r = Return r' \<Longrightarrow>
     domain_server r' = domain_server r \<and> resolv_config r' = resolv_config r"
  by (auto simp: ReadServerListFile_def load_resolv_file_def split: option.splits if_splits)

lemma NewResolver_shape:
  assumes "NewResolver L fs resolv_conf c = Return (Inr r)"
  shows "domain_server r = newSuffixTreeRoot" and "resolv_config r = c"
    and "rttServers r = init_rtt (seconds (Timeout c)) (configured r)"
proof -
  let ?rt = "\<lambda>r2. init_rtt (seconds (Timeout c)) (if servers r2 \<noteq> [] then servers r2 else default_servers)"
  let ?r0 = "\<lambda>v. \<lparr>servers = [], domain_server = newSuffixTreeRoot, resolv_config = c, dnssecValidator = v,
    rttServers = fmempty\<rparr>"
  let ?r1 = "\<lambda>v. if ServerListFile c \<noteq> [] then ReadServerListFile fs (?r0 v) (ServerListFile c) else ?r0 v"
  from assms obtain res :: "load_error + DNSSECValidator" where "(case res of Inl err \<Rightarrow> Return (Inl err)
    | Inr v \<Rightarrow> bind_outcome (load_resolv_file resolv_conf (ResolvFile c) (?r1 v))
        (\<lambda>r2. Return (Inr (r2\<lparr>rttServers := ?rt r2\<rparr>)))) = Return (Inr r)"
    unfolding NewResolver_def bind_outcome_Return_iff Let_def by blast
  then obtain v where "bind_outcome (load_resolv_file resolv_conf (ResolvFile c) (?r1 v))
      (\<lambda>r2. Return (Inr (r2\<lparr>rttServers := ?rt r2\<rparr>))) = Return (Inr r :: load_error + Resolver)"
    by (cases res) simp_all
  then obtain r2 where r2: "load_resolv_file resolv_conf (ResolvFile c) (?r1 v) = Return r2"
    and r: "r = r2\<lparr>rttServers := ?rt r2\<rparr>"
    unfolding bind_outcome_Return_iff by auto
  have "domain_server (?r1 v) = newSuffixTreeRoot" "resolv_config (?r1 v) = c"
    by (simp_all add: load_frames)
  with r load_frames(3) [OF r2] show "domain_server r = newSuffixTreeRoot" "resolv_config r = c"
    "rttServers r = init_rtt (seconds (Timeout c)) (configured r)"
    by (simp_all add: configured_def)
qed

lemma NewResolver_ok:
  assumes "NewResolver L fs resolv_conf c = Return (Inr r)"
  shows "rtt_ok r" and "fmdom (rttServers r) = fset_of_list (configured r)"
  using NewResolver_shape [OF assms] by (simp_all add: rtt_ok_def init_rtt_lookup init_rtt_dom)

lemma configured_not_Nil: "configured r \<noteq> []"
  by (simp add: configured_def default_servers_def)

section \<open>Choice of nameservers\<close>

lemma SearchDomain_new: "SearchDomain newSuffixTreeRoot keys = ([], False)"
  by (cases "rev keys") (simp_all add: SearchDomain_def newSuffixTreeRoot_def)

definition rtt_of :: "Resolver \<Rightarrow> string \<Rightarrow> duration" where
  "rtt_of r a = (case fmlookup (rttServers r) a of Some st \<Rightarrow> ns_rtt st | None \<Rightarrow> 0)"

lemma range_states:
  assumes "rtt_ok r" and "set ord \<subseteq> fset (fmdom (rttServers r))"
  shows "map ns_addr (List.map_filter (fmlookup (rttServers r)) ord) = ord"
    and "st \<in> set (List.map_filter (fmlookup (rttServers r)) ord) \<Longrightarrow> ns_rtt st = rtt_of r (ns_addr st)"
  using assms
  by (induction ord) (auto simp: List.map_filter_simps rtt_ok_def rtt_of_def fmlookup_dom_iff)

lemma sorted_states:
  assumes "rtt_ok r" and "range_order ord (rttServers r)"
  defines "ns \<equiv> map ns_addr (sort_key ns_rtt (List.map_filter (fmlookup (rttServers r)) ord))"
  shows "sorted (map (rtt_of r) ns)" and "distinct ns" and "set ns = set ord"
proof -
  let ?states = "List.map_filter (fmlookup (rttServers r)) ord"
  have sub: "set ord \<subseteq> fset (fmdom (rttServers r))" using range_order_set [OF assms(2)] by simp
  note states = range_states [OF assms(1) sub]
  have "map (rtt_of r) ns = map ns_rtt (sort_key ns_rtt ?states)"
    unfolding ns_def by (simp add: states(2))
  then show "sorted (map (rtt_of r) ns)" by simp
  have m: "mset ns = mset ord"
    unfolding ns_def by (metis mset_map mset_sort states(1))
  then show "set ns = set ord" by (rule mset_eq_setD)
  from m assms(2) show "distinct ns" by (metis range_order_def mset_eq_imp_distinct_iff)
qed

lemma Nameservers_no_rule:
  assumes "SearchDomain (domain_server r) (Split (TrimByte (CHR ''.'') qname) (CHR ''.'')) = (v, False)"
    and "rtt_ok r" and "range_order ord (rttServers r)"
    and "fmdom (rttServers r) = fset_of_list (configured r)"
  shows "set (Nameservers ord r qname) = set (configured r)"
    and "LoadBalanceEnable (resolv_config r) \<Longrightarrow>
           distinct (Nameservers ord r qname) \<and> sorted (map (rtt_of r) (Nameservers ord r qname))"
    and "\<not> LoadBalanceEnable (resolv_config r) \<Longrightarrow> Nameservers ord r qname = configured r"
proof -
  note sorted = sorted_states [OF assms(2,3)]
  have ord: "set ord = set (configured r)"
    using range_order_set [OF assms(3)] assms(4) by (simp add: fset_of_list.rep_eq)
  then have "ord \<noteq> []" using configured_not_Nil [of r] by (metis set_empty)
  then have "map ns_addr (sort_key ns_rtt (List.map_filter (fmlookup (rttServers r)) ord)) \<noteq> []"
    using sorted(3) by (metis set_empty)
  with assms(1) sorted ord show "set (Nameservers ord r qname) = set (configured r)"
    "LoadBalanceEnable (resolv_config r) \<Longrightarrow>
       distinct (Nameservers ord r qname) \<and> sorted (map (rtt_of r) (Nameservers ord r qname))"
    "\<not> LoadBalanceEnable (resolv_config r) \<Longrightarrow> Nameservers ord r qname = configured r"
    by (simp_all add: Nameservers_def Let_def configured_def)
qed

lemma Nameservers_run:
  assumes "NewResolver L fs resolv_conf c = Return (Inr r0)" and "r = fold pool_step es r0"
    and "range_order ord (rttServers r)"
  shows "set (Nameservers ord r qname) = set (configured r0)"
    and "LoadBalanceEnable c \<Longrightarrow>
           distinct (Nameservers ord r qname) \<and> sorted (map (rtt_of r) (Nameservers ord r qname))"
    and "\<not> LoadBalanceEnable c \<Longrightarrow> Nameservers ord r qname = configured r0"
proof -
  note frame = pool.run_frame [of es r0] and shape = NewResolver_shape [OF assms(1)]
  have conf: "configured r = configured r0" "resolv_config r = c"
    using frame shape by (simp_all add: configured_def assms(2))
  have "rtt_ok r" unfolding assms(2) by (rule pool.run_ok [OF NewResolver_ok(1) [OF assms(1)]])
  moreover have "fmdom (rttServers r) = fset_of_list (configured r)"
    using pool.run_addrs [of es r0] NewResolver_ok(2) [OF assms(1)] conf by (simp add: assms(2))
  moreover have "SearchDomain (domain_server r) keys = ([], False)" for keys
    using frame shape SearchDomain_new by (simp add: assms(2))
  ultimately show "set (Nameservers ord r qname) = set (configured r0)"
    "LoadBalanceEnable c \<Longrightarrow> distinct (Nameservers ord r qname) \<and> sorted (map (rtt_of r) (Nameservers ord r qname))"
    "\<not> LoadBalanceEnable c \<Longrightarrow> Nameservers ord r qname = configured r0"
    using Nameservers_no_rule [of r qname "[]" ord] assms(3) conf by simp_all
qed

section \<open>Round-trip times\<close>

fun event_within :: "duration \<Rightarrow> pool_event \<Rightarrow> bool" where
  "event_within m (Failed a) \<longleftrightarrow> True"
| "event_within m (Answered a rtt) \<longleftrightarrow> 0 \<le> rtt \<and> rtt \<le> m"

definition rtts_within :: "duration \<Rightarrow> Resolver \<Rightarrow> bool" where
  "rtts_within m r \<longleftrightarrow> (\<forall>a st. fmlookup (rttServers r) a = Some st \<longrightarrow> 0 \<le> ns_rtt st \<and> ns_rtt st \<le> m)"

lemma rtts_within_set_rtt:
  "rtts_within m r \<Longrightarrow> (\<And>old. 0 \<le> old \<Longrightarrow> old \<le> m \<Longrightarrow> 0 \<le> f old \<and> f old \<le> m) \<Longrightarrow>
     rtts_within m (set_rtt a f r)"
  by (auto simp: rtts_within_def set_rtt_lookup split: if_splits)

lemma rtts_within_step:
  assumes "rtts_within m r" and "event_within m e" and "m < 2 ^ 50"
    and "0 \<le> seconds (Timeout (resolv_config r))" "seconds (Timeout (resolv_config r)) \<le> m"
  shows "rtts_within m (pool_step e r)"
proof (cases e)
  case (Failed a)
  show ?thesis unfolding Failed pool_step.simps penalize_def
    by (rule rtts_within_set_rtt [OF assms(1)]) (use assms(4,5) in simp)
next
  case (Answered a rtt)
  have "0 \<le> ema old rtt \<and> ema old rtt \<le> m" if "0 \<le> old" "old \<le> m" for old
    using ema_bounds [of old rtt] that assms(2,3) Answered by auto
  then show ?thesis unfolding Answered pool_step.simps reward_def
    by (rule rtts_within_set_rtt [OF assms(1)])
qed

lemma rtts_within_run:
  "rtts_within m r \<Longrightarrow> list_all (event_within m) es \<Longrightarrow> m < 2 ^ 50 \<Longrightarrow>
     0 \<le> seconds (Timeout (resolv_config r)) \<Longrightarrow> seconds (Timeout (resolv_config r)) \<le> m \<Longrightarrow>
     rtts_within m (fold pool_step es r)"
proof (induction es arbitrary: r)
  case (Cons e es)
  then have "rtts_within m (pool_step e r)" by (intro rtts_within_step) simp_all
  with Cons show ?case using pool.frame [of e r] by simp
qed simp

section \<open>Properties\<close>

text \<open>C14: The nameservers of a query, for a resolver built from its configuration and after any
  number of failures and answers of servers: they are exactly the configured servers (the two
  defaults without any), never none; with load balancing each one appears once and they are
  ordered by their round-trip times, without it they come in the order of the configuration.\<close>

theorem nameservers_choice:
  assumes "NewResolver L fs resolv_conf c = Return (Inr r0)" and "r = fold pool_step es r0"
    and "range_order ord (rttServers r)"
  shows "set (Nameservers ord r qname) = set (configured r0) \<and> Nameservers ord r qname \<noteq> [] \<and>
    (if LoadBalanceEnable c
     then distinct (Nameservers ord r qname) \<and> sorted (map (rtt_of r) (Nameservers ord r qname))
     else Nameservers ord r qname = configured r0)"
proof -
  note choice = Nameservers_run [OF assms, of qname]
  moreover have "Nameservers ord r qname \<noteq> []"
    using choice(1) configured_not_Nil [of r0] by (metis set_empty)
  ultimately show ?thesis by simp
qed

text \<open>The domain-specific rules are out of reach: nothing fills the suffix tree of a resolver,
  so no query is ever sent to the nameservers of a rule, whatever the server list file holds.\<close>

theorem domain_rules_unreachable:
  assumes "NewResolver L fs resolv_conf c = Return (Inr r0)"
  shows "domain_server (fold pool_step es r0) = newSuffixTreeRoot \<and>
         SearchDomain (domain_server (fold pool_step es r0)) keys = ([], False)"
  using pool.run_frame [of es r0] NewResolver_shape(1) [OF assms] SearchDomain_new by simp

text \<open>C31: The measured round-trip times stay within bounds: as long as the timeout and every measured
  time are between 0 and some bound (below thirteen days), so is every stored average; the
  rounding of the floating-point average never leads out of the range.\<close>

theorem rtt_stays_bounded:
  assumes "NewResolver L fs resolv_conf c = Return (Inr r0)"
    and "0 \<le> seconds (Timeout c)" and "seconds (Timeout c) \<le> m" and "m < 2 ^ 50"
    and "list_all (event_within m) es"
  shows "0 \<le> rtt_of (fold pool_step es r0) a \<and> rtt_of (fold pool_step es r0) a \<le> m"
proof -
  note shape = NewResolver_shape [OF assms(1)]
  have "rtts_within m r0" using shape(3) assms(2,3) by (simp add: rtts_within_def init_rtt_lookup)
  then have "rtts_within m (fold pool_step es r0)"
    by (rule rtts_within_run) (use assms shape in simp_all)
  with assms(2,3) show ?thesis
    by (auto simp: rtts_within_def rtt_of_def split: option.splits)
qed


text \<open>\<open>addPort\<close> makes a server address complete: for a server without brackets the result always
  has a host and a port, and completing it again changes nothing.\<close>

theorem addPort_complete:
  assumes "bracket_free server" and "plain port"
  shows "\<exists>host p. SplitHostPort (addPort server port) = Some (host, p) \<and>
           addPort (addPort server port) port' = addPort server port \<and>
           (SplitHostPort server = None \<longrightarrow> host = server \<and> p = port)"
proof (cases "SplitHostPort server")
  case None
  with SplitHostPort_JoinHostPort [OF assms] show ?thesis by (simp add: addPort_def)
next
  case (Some hp)
  then show ?thesis by (cases hp) (simp add: addPort_def)
qed

text \<open>C27: A failed DNSSEC validation changes nothing for the client: the response is returned as it
  came. For a response without DNSKEY records, as the answers to A, AAAA, MX and CNAME queries
  are, that is always so, and then the round-trip time of its server is not recorded either.\<close>

theorem unvalidated_answer_returned:
  assumes "DNSSECEnable (resolv_config r)" and "range_order ord (groupSignedRRsets (resp_msg re))"
    and "\<And>key. RR_DNSKEY key \<notin> set (all_rrs (resp_msg re))"
  shows "\<exists>w'. finish_lookup fuel ord L E re r w = Some (Return (resp_msg re, r, w'))"
proof -
  have "\<exists>err w'. Validate fuel ord L E (dnssecValidator r) (resp_msg re) w = Some (Return (Some err, w'))"
    by (rule no_key_Validate [OF assms(3,2)])
  with assms(1) show ?thesis by (auto simp: finish_lookup_def Let_def)
qed

section \<open>Witnesses\<close>

definition sample_settings :: ResolvSettings where
  "sample_settings = \<lparr>Timeout = 5, Interval = 200, SetEDNS0 = False, ServerListFile = [],
     ResolvFile = ''/etc/resolv.conf'', DNSSECEnable = True, TrustAnchorFile = [], LoadBalanceEnable = True\<rparr>"

definition sample_conf :: "string \<Rightarrow> (string list \<times> string) option" where
  "sample_conf path = Some ([''10.0.0.1'', ''10.0.0.2''], ''53'')"

definition sample_resolver :: Resolver where
  "sample_resolver =
     \<lparr>servers = [''10.0.0.1:53'', ''10.0.0.2:53''], domain_server = newSuffixTreeRoot,
      resolv_config = sample_settings,
      dnssecValidator = \<lparr>trustAnchors = NewTrustAnchorManager, dsCache = NewDNSSECCache\<rparr>,
      rttServers = init_rtt (5 * Second) [''10.0.0.1:53'', ''10.0.0.2:53'']\<rparr>"

lemma seconds_5: "seconds 5 = 5 * Second"
  unfolding seconds_def by (rule int64_id) simp_all

lemma sample_NewResolver: "NewResolver L fs sample_conf sample_settings = Return (Inr sample_resolver)"
  by (simp add: NewResolver_def NewDNSSECValidator_def load_resolv_file_def sample_conf_def sample_settings_def
      sample_resolver_def JoinHostPort_def seconds_5)

lemma sample_range:
  "range_order [''10.0.0.1:53'', ''10.0.0.2:53''] (rttServers (fold pool_step es sample_resolver))"
  by (simp add: range_order_def pool.run_addrs sample_resolver_def init_rtt_dom)

theorem nameservers_choice_witness:
  "set (Nameservers [''10.0.0.1:53'', ''10.0.0.2:53'']
      (fold pool_step [Failed ''10.0.0.1:53''] sample_resolver) ''a.b.'') = {''10.0.0.1:53'', ''10.0.0.2:53''}"
  using nameservers_choice [OF sample_NewResolver refl sample_range, of "[Failed ''10.0.0.1:53'']" "''a.b.''"]
  by (simp add: configured_def sample_resolver_def)

theorem domain_rules_unreachable_witness:
  "SearchDomain (domain_server (fold pool_step [] sample_resolver)) [''a'', ''b''] = ([], False)"
  using domain_rules_unreachable [OF sample_NewResolver, of "[]" "[''a'', ''b'']"] by (rule conjunct2)

theorem rtt_stays_bounded_witness:
  "rtt_of (fold pool_step [Answered ''10.0.0.1:53'' 20000000] sample_resolver) ''10.0.0.1:53'' \<le> 5 * Second"
  using rtt_stays_bounded [OF sample_NewResolver, of "5 * Second" "[Answered ''10.0.0.1:53'' 20000000]" "''10.0.0.1:53''"]
  by (simp add: sample_settings_def seconds_5)


theorem addPort_complete_witness:
  "\<exists>host p. SplitHostPort (addPort ''10.0.0.1'' ''53'') = Some (host, p)"
  using addPort_complete [of "''10.0.0.1''" "''53''" "''54''"] by (auto simp: bracket_free_def plain_def)

theorem unvalidated_answer_returned_witness:
  "\<exists>w'. finish_lookup 1 [] sample_lib sample_env
      \<lparr>resp_msg = unsigned_msg, resp_nameserver = ''10.0.0.1:53'', resp_rtt = 20000000\<rparr> sample_resolver ()
     = Some (Return (unsigned_msg, sample_resolver, w'))"
proof -
  let ?re = "\<lparr>resp_msg = unsigned_msg, resp_nameserver = ''10.0.0.1:53'', resp_rtt = 20000000\<rparr>"
  have "\<exists>w'. finish_lookup 1 [] sample_lib sample_env ?re sample_resolver ()
      = Some (Return (resp_msg ?re, sample_resolver, w'))"
    by (rule unvalidated_answer_returned)
       (use unsigned_range in \<open>simp_all add: sample_resolver_def sample_settings_def all_rrs_def
          unsigned_msg_def new_Msg_def\<close>)
  then show ?thesis by simp
qed

end
