(* ===== verification/Lookup.thy ===== *)
theory Lookup
  imports Resolver
begin

text \<open>
  \<open>Lookup\<close> of \<open>resolver.go\<close>: a step relation over its goroutines. There is one worker per nameserver,
  the goroutine that closes the channel when all workers are done, and the caller, which waits for
  the first response, for the channel to be closed, or for the timer. The channel has room for
  one response. The context is cancelled when the caller returns.

  The network is an argument: \<open>may_answer net request nameserver response rtt\<close> says that an exchange
  can end with that response; it can always fail, too. When the caller has a response it runs
  \<open>finish_lookup\<close> of the theory \<open>Resolver\<close>. The timer may fire at any moment of the wait, which covers
  every value of the timeout.
\<close>

section \<open>The model\<close>

datatype worker = Starting | Asking | Sending RResp | Exited

datatype caller = Waiting | Received RResp | Returned "ResolvError + Msg"

record lookup =
  workers :: "worker list"
  chan :: "RResp list"
  chan_closed :: bool
  caller :: caller
  pool :: Resolver

type_synonym network = "string \<Rightarrow> Msg \<Rightarrow> string \<Rightarrow> Msg \<Rightarrow> duration \<Rightarrow> bool"

definition start_lookup :: "string list \<Rightarrow> Resolver \<Rightarrow> lookup" where
  "start_lookup nameservers r =
     \<lparr>workers = replicate (length nameservers) Starting, chan = [], chan_closed = False,
      caller = Waiting, pool = r\<rparr>"

definition cancelled :: "lookup \<Rightarrow> bool" where
  "cancelled s \<longleftrightarrow> (case caller s of Returned _ \<Rightarrow> True | _ \<Rightarrow> False)"

definition set_worker :: "nat \<Rightarrow> worker \<Rightarrow> lookup \<Rightarrow> lookup" where
  "set_worker i x s = s\<lparr>workers := (workers s)[i := x]\<rparr>"

definition lookup_error :: "string \<Rightarrow> Msg \<Rightarrow> string list \<Rightarrow> ResolvError" where
  "lookup_error net req nameservers = ResolvError (q_Name (hd (Msg_Question req))) net nameservers"

inductive lookup_step ::
  "dns_lib \<Rightarrow> 'w dns_env \<Rightarrow> network \<Rightarrow> string \<Rightarrow> Msg \<Rightarrow> string list \<Rightarrow> lookup \<Rightarrow> lookup \<Rightarrow> bool"
  for L E may_answer net req nameservers where
  skip: "i < length (workers s) \<Longrightarrow> workers s ! i = Starting \<Longrightarrow> cancelled s \<Longrightarrow>
    lookup_step L E may_answer net req nameservers s (set_worker i Exited s)"
| ask: "i < length (workers s) \<Longrightarrow> workers s ! i = Starting \<Longrightarrow> \<not> cancelled s \<Longrightarrow>
    lookup_step L E may_answer net req nameservers s (set_worker i Asking s)"
| fail: "i < length (workers s) \<Longrightarrow> workers s ! i = Asking \<Longrightarrow>
    lookup_step L E may_answer net req nameservers s
      ((set_worker i Exited s)\<lparr>pool := penalize (nameservers ! i) (pool s)\<rparr>)"
| refuse: "i < length (workers s) \<Longrightarrow> workers s ! i = Asking \<Longrightarrow>
    may_answer net (prepare_request L (resolv_config (pool s)) req) (nameservers ! i) a rtt \<Longrightarrow>
    Rcode a = RcodeServerFailure \<Longrightarrow>
    lookup_step L E may_answer net req nameservers s (set_worker i Exited s)"
| answer: "i < length (workers s) \<Longrightarrow> workers s ! i = Asking \<Longrightarrow>
    may_answer net (prepare_request L (resolv_config (pool s)) req) (nameservers ! i) a rtt \<Longrightarrow>
    Rcode a \<noteq> RcodeServerFailure \<Longrightarrow>
    lookup_step L E may_answer net req nameservers s
      (set_worker i (Sending \<lparr>resp_msg = a, resp_nameserver = nameservers ! i, resp_rtt = rtt\<rparr>) s)"
| send: "i < length (workers s) \<Longrightarrow> workers s ! i = Sending re \<Longrightarrow> chan s = [] \<Longrightarrow> \<not> chan_closed s \<Longrightarrow>
    lookup_step L E may_answer net req nameservers s ((set_worker i Exited s)\<lparr>chan := [re]\<rparr>)"
| close: "\<forall>x \<in> set (workers s). x = Exited \<Longrightarrow> \<not> chan_closed s \<Longrightarrow>
    lookup_step L E may_answer net req nameservers s (s\<lparr>chan_closed := True\<rparr>)"
| receive: "caller s = Waiting \<Longrightarrow> chan s = re # rest \<Longrightarrow>
    lookup_step L E may_answer net req nameservers s (s\<lparr>caller := Received re, chan := rest\<rparr>)"
| no_answer: "caller s = Waiting \<Longrightarrow> chan s = [] \<Longrightarrow> chan_closed s \<Longrightarrow>
    lookup_step L E may_answer net req nameservers s
      (s\<lparr>caller := Returned (Inl (lookup_error net req nameservers))\<rparr>)"
| timeout: "caller s = Waiting \<Longrightarrow>
    lookup_step L E may_answer net req nameservers s
      (s\<lparr>caller := Returned (Inl (lookup_error net req nameservers))\<rparr>)"
| finish: "caller s = Received re \<Longrightarrow>
    finish_lookup fuel ord L E re (pool s) w = Some (Return (msg, r', w')) \<Longrightarrow>
    lookup_step L E may_answer net req nameservers s
      (s\<lparr>caller := Returned (Inr msg), pool := r'\<rparr>)"

inductive_cases lookup_stepE: "lookup_step L E may_answer net req nameservers s t"

definition lookup_reachable ::
  "dns_lib \<Rightarrow> 'w dns_env \<Rightarrow> network \<Rightarrow> string \<Rightarrow> Msg \<Rightarrow> string list \<Rightarrow> Resolver \<Rightarrow> lookup \<Rightarrow> bool" where
  "lookup_reachable L E may_answer net req nameservers r s \<longleftrightarrow>
     (lookup_step L E may_answer net req nameservers)\<^sup>*\<^sup>* (start_lookup nameservers r) s"

text \<open>The lookups of a resolver: the nameservers are chosen for the name of the question, with some order
  of the range over the servers, and the resolver is left as a run of the goroutines leaves it.
  The run may go on after the caller has returned, so that late failures are counted too.\<close>

definition lookup_outcome ::
  "dns_lib \<Rightarrow> 'w dns_env \<Rightarrow> network \<Rightarrow> string \<Rightarrow> Msg \<Rightarrow> Resolver \<Rightarrow> ResolvError + Msg \<Rightarrow> Resolver \<Rightarrow> bool" where
  "lookup_outcome L E may_answer net req r res r' \<longleftrightarrow>
     (\<exists>ord s. range_order ord (rttServers r) \<and>
        lookup_reachable L E may_answer net req (Nameservers ord r (q_Name (hd (Msg_Question req)))) r s \<and>
        caller s = Returned res \<and> r' = pool s)"

section \<open>Invariant\<close>

definition good_answer :: "dns_lib \<Rightarrow> network \<Rightarrow> string \<Rightarrow> Msg \<Rightarrow> string list \<Rightarrow> ResolvSettings \<Rightarrow> Msg \<Rightarrow> bool" where
  "good_answer L may_answer net req nameservers c a \<longleftrightarrow>
     Rcode a \<noteq> RcodeServerFailure \<and>
     (\<exists>nameserver \<in> set nameservers. \<exists>rtt. may_answer net (prepare_request L c req) nameserver a rtt)"

fun responses_of :: "worker \<Rightarrow> RResp list" where
  "responses_of (Sending re) = [re]"
| "responses_of _ = []"

fun caller_ok :: "(Msg \<Rightarrow> bool) \<Rightarrow> caller \<Rightarrow> bool" where
  "caller_ok good Waiting \<longleftrightarrow> True"
| "caller_ok good (Received re) \<longleftrightarrow> good (resp_msg re)"
| "caller_ok good (Returned (Inl e)) \<longleftrightarrow> True"
| "caller_ok good (Returned (Inr m)) \<longleftrightarrow> good m"

definition lookup_inv :: "(Msg \<Rightarrow> bool) \<Rightarrow> string list \<Rightarrow> ResolvSettings \<Rightarrow> lookup \<Rightarrow> bool" where
  "lookup_inv good nameservers c s \<longleftrightarrow>
     length (workers s) = length nameservers \<and> length (chan s) \<le> 1 \<and>
     (chan_closed s \<longrightarrow> (\<forall>x \<in> set (workers s). x = Exited)) \<and>
     (\<forall>re \<in> set (chan s). good (resp_msg re)) \<and>
     (\<forall>re. Sending re \<in> set (workers s) \<longrightarrow> good (resp_msg re)) \<and>
     caller_ok good (caller s) \<and> resolv_config (pool s) = c"

lemma lookup_inv_start: "lookup_inv good nameservers (resolv_config r) (start_lookup nameservers r)"
  by (auto simp: lookup_inv_def start_lookup_def)

lemma set_worker_simps [simp]:
  "workers (set_worker i x s) = (workers s)[i := x]" "chan (set_worker i x s) = chan s"
  "chan_closed (set_worker i x s) = chan_closed s" "caller (set_worker i x s) = caller s"
  "pool (set_worker i x s) = pool s"
  by (simp_all add: set_worker_def)

text \<open>A worker that has not exited keeps the channel open.\<close>

lemma lookup_inv_open:
  "lookup_inv good ns c s \<Longrightarrow> i < length (workers s) \<Longrightarrow> workers s ! i \<noteq> Exited \<Longrightarrow> \<not> chan_closed s"
  by (auto simp: lookup_inv_def)

lemma lookup_inv_worker:
  assumes "lookup_inv good ns c s" and "i < length (workers s)" and "workers s ! i \<noteq> Exited"
    and "\<And>re. x = Sending re \<Longrightarrow> good (resp_msg re)"
  shows "lookup_inv good ns c (set_worker i x s)"
  using assms lookup_inv_open [OF assms(1-3)]
  by (auto simp: lookup_inv_def dest!: set_update_subset_insert [THEN subsetD])

lemma finish_lookup_msg:
  assumes "finish_lookup fuel ord L E re r w = Some (Return (msg, r', w'))"
  shows "msg = resp_msg re" and "resolv_config r' = resolv_config r"
  using assms answers.frame [of "(resp_nameserver re, resp_rtt re)" r]
  by (auto simp: finish_lookup_def Let_def split: if_splits option.splits outcome.splits prod.splits)

lemma lookup_inv_step:
  assumes "lookup_step L E may_answer net req nameservers s t"
    and inv: "lookup_inv (good_answer L may_answer net req nameservers c) nameservers c s"
  shows "lookup_inv (good_answer L may_answer net req nameservers c) nameservers c t"
  using assms(1)
proof cases
  case (answer i a rtt)
  then have "good_answer L may_answer net req nameservers c a"
    using inv by (auto simp: good_answer_def lookup_inv_def)
  then show ?thesis unfolding answer(1)
    by (intro lookup_inv_worker [OF inv]) (use answer in auto)
next
  case (fail i)
  have "lookup_inv (good_answer L may_answer net req nameservers c) nameservers c (set_worker i Exited s)"
    using lookup_inv_worker [OF inv, of i Exited] fail by simp
  then show ?thesis using fail failures.frame by (simp add: lookup_inv_def)
next
  case (send i re)
  have "lookup_inv (good_answer L may_answer net req nameservers c) nameservers c (set_worker i Exited s)"
    using lookup_inv_worker [OF inv, of i Exited] send by simp
  moreover have "good_answer L may_answer net req nameservers c (resp_msg re)"
    using inv send by (metis lookup_inv_def nth_mem)
  ultimately show ?thesis using send by (simp add: lookup_inv_def)
next
  case (finish re fuel ord w msg r' w')
  then show ?thesis using inv finish_lookup_msg [OF finish(3)] by (simp add: lookup_inv_def)
next
  case (skip i)
  then show ?thesis using lookup_inv_worker [OF inv, of i Exited] by simp
next
  case (ask i)
  then show ?thesis using lookup_inv_worker [OF inv, of i Asking] by simp
next
  case (refuse i a rtt)
  then show ?thesis using lookup_inv_worker [OF inv, of i Exited] by simp
qed (use inv in \<open>simp_all add: lookup_inv_def\<close>)

lemma lookup_inv_reachable:
  assumes "lookup_reachable L E may_answer net req nameservers r s"
  shows "lookup_inv (good_answer L may_answer net req nameservers (resolv_config r)) nameservers (resolv_config r) s"
  using assms unfolding lookup_reachable_def
  by (induction rule: rtranclp_induct) (auto intro: lookup_inv_start lookup_inv_step)

lemma lookup_error_only:
  assumes "lookup_reachable L E may_answer net req nameservers r s"
  shows "caller s = Returned (Inl e) \<Longrightarrow> e = lookup_error net req nameservers"
  using assms unfolding lookup_reachable_def
proof (induction rule: rtranclp_induct)
  case base
  then show ?case by (simp add: start_lookup_def)
next
  case (step s t)
  from step(2) show ?case by cases (use step(3,4) in simp_all)
qed

section \<open>Termination and progress\<close>

fun worker_rank :: "worker \<Rightarrow> nat" where
  "worker_rank Starting = 3"
| "worker_rank Asking = 2"
| "worker_rank (Sending re) = 1"
| "worker_rank Exited = 0"

fun caller_rank :: "caller \<Rightarrow> nat" where
  "caller_rank Waiting = 2"
| "caller_rank (Received re) = 1"
| "caller_rank (Returned res) = 0"

definition rank :: "lookup \<Rightarrow> nat" where
  "rank s = sum_list (map worker_rank (workers s)) + caller_rank (caller s) + (if chan_closed s then 0 else 1)"

lemma rank_worker:
  assumes "i < length (workers s)" and "worker_rank x < worker_rank (workers s ! i)"
  shows "sum_list (map worker_rank ((workers s)[i := x])) < sum_list (map worker_rank (workers s))"
proof -
  have "sum_list (map worker_rank ((workers s)[i := x])) =
      sum_list (map worker_rank (workers s)) + worker_rank x - worker_rank (workers s ! i)"
    using assms(1) by (simp add: map_update sum_list_update)
  moreover have "worker_rank (workers s ! i) \<le> sum_list (map worker_rank (workers s))"
    using assms(1) by (metis elem_le_sum_list length_map nth_map)
  ultimately show ?thesis using assms(2) by linarith
qed

lemma lookup_step_rank:
  assumes "lookup_step L E may_answer net req nameservers s t"
  shows "rank t < rank s"
  using assms
proof cases
  case (skip i)
  then show ?thesis using rank_worker [of i s Exited] by (simp add: rank_def)
next
  case (ask i)
  then show ?thesis using rank_worker [of i s Asking] by (simp add: rank_def)
next
  case (fail i)
  then show ?thesis using rank_worker [of i s Exited] by (simp add: rank_def)
next
  case (refuse i a rtt)
  then show ?thesis using rank_worker [of i s Exited] by (simp add: rank_def)
next
  case (answer i a rtt)
  let ?x = "Sending \<lparr>resp_msg = a, resp_nameserver = nameservers ! i, resp_rtt = rtt\<rparr>"
  show ?thesis using answer rank_worker [of i s ?x] by (simp add: rank_def)
next
  case (send i re)
  then show ?thesis using rank_worker [of i s Exited] by (simp add: rank_def)
qed (simp_all add: rank_def)

lemma rank_start: "rank (start_lookup nameservers r) = 3 * length nameservers + 3"
  by (simp add: rank_def start_lookup_def sum_list_replicate)

lemma run_length:
  "(lookup_step L E may_answer net req nameservers ^^ n) s t \<Longrightarrow> rank t + n \<le> rank s"
proof (induction n arbitrary: t)
  case (Suc n)
  then obtain u where "(lookup_step L E may_answer net req nameservers ^^ n) s u"
    "lookup_step L E may_answer net req nameservers u t" by auto
  with Suc.IH [of u] lookup_step_rank [of L E may_answer net req nameservers u t] show ?case by simp
qed simp

text \<open>While the caller waits, something other than the timer can always go on.\<close>

lemma waiting_progress:
  assumes inv: "lookup_inv good nameservers c s" and wait: "caller s = Waiting"
  shows "\<exists>t. lookup_step L E may_answer net req nameservers s t \<and>
           (\<forall>e. caller t = Returned (Inl e) \<longrightarrow> (\<forall>x \<in> set (workers s). x = Exited))"
proof (cases "\<forall>x \<in> set (workers s). x = Exited")
  case True
  show ?thesis
  proof (cases "chan s")
    case (Cons re rest)
    from lookup_step.receive [OF wait this] show ?thesis by force
  next
    case Nil
    show ?thesis
      using True lookup_step.close [of s] lookup_step.no_answer [OF wait Nil] by (cases "chan_closed s") blast+
  qed
next
  case False
  then obtain i where i: "i < length (workers s)" "workers s ! i \<noteq> Exited"
    by (auto simp: in_set_conv_nth)
  have "\<not> cancelled s" using wait by (simp add: cancelled_def)
  show ?thesis
  proof (cases "workers s ! i")
    case Starting
    from lookup_step.ask [OF i(1) this \<open>\<not> cancelled s\<close>] show ?thesis using wait by force
  next
    case Asking
    from lookup_step.fail [OF i(1) this] show ?thesis using wait by force
  next
    case (Sending re)
    show ?thesis
    proof (cases "chan s")
      case Nil
      from lookup_step.send [OF i(1) Sending Nil lookup_inv_open [OF inv i]] show ?thesis using wait by force
    next
      case (Cons re' rest)
      from lookup_step.receive [OF wait this] show ?thesis by force
    qed
  qed (use i in simp)
qed

section \<open>The pool\<close>

lemma finish_lookup_pool:
  assumes "finish_lookup fuel ord L E re r w = Some (Return (msg, r', w'))"
  shows "r' = r \<or> r' = pool_step (Answered (resp_nameserver re) (resp_rtt re)) r"
  using assms
  by (auto simp: finish_lookup_def Let_def split: if_splits option.splits outcome.splits prod.splits)

lemma lookup_pool:
  assumes "lookup_reachable L E may_answer net req nameservers r s"
  shows "\<exists>es. pool s = fold pool_step es r"
  using assms unfolding lookup_reachable_def
proof (induction rule: rtranclp_induct)
  case base
  show ?case by (intro exI [of _ "[]"]) (simp add: start_lookup_def)
next
  case (step s t)
  then obtain es where es: "pool s = fold pool_step es r" by blast
  have "\<exists>es'. pool t = fold pool_step es' (pool s)"
    using step(2)
  proof cases
    case (fail i)
    then show ?thesis by (intro exI [of _ "[Failed (nameservers ! i)]"]) simp
  next
    case (finish re fuel ord w msg r' w')
    from finish_lookup_pool [OF finish(3)] finish(1) show ?thesis
      by (auto intro: exI [of _ "[]"] exI [of _ "[Answered (resp_nameserver re) (resp_rtt re)]"])
  qed (auto intro: exI [of _ "[]"])
  then obtain es' where "pool t = fold pool_step es' (pool s)" ..
  with es have "pool t = fold pool_step (es @ es') r" by simp
  then show ?case ..
qed

section \<open>Lookups of a constructed resolver\<close>

lemma good_answer_set:
  "set ns = set ns' \<Longrightarrow> good_answer L may_answer net req ns c a = good_answer L may_answer net req ns' c a"
  by (simp add: good_answer_def)

lemma lookup_outcome_pool:
  "lookup_outcome L E may_answer net req (fold pool_step es r) res r' \<Longrightarrow> \<exists>es'. r' = fold pool_step es' r"
  unfolding lookup_outcome_def using lookup_pool by (metis fold_append comp_apply)

lemma lookup_outcome_good:
  assumes "NewResolver L fs resolv_conf c = Return (Inr r0)"
    and "lookup_outcome L E may_answer net req (fold pool_step es r0) (Inr m) r'"
  shows "good_answer L may_answer net req (configured r0) c m"
proof -
  let ?r = "fold pool_step es r0"
  obtain ord s where s: "range_order ord (rttServers ?r)" "caller s = Returned (Inr m)"
    "lookup_reachable L E may_answer net req (Nameservers ord ?r (q_Name (hd (Msg_Question req)))) ?r s"
    using assms(2) unfolding lookup_outcome_def by metis
  have "resolv_config ?r = c"
    using pool.run_frame [of es r0] NewResolver_shape(2) [OF assms(1)] by simp
  moreover have "set (Nameservers ord ?r qname) = set (configured r0)" for qname
    by (rule Nameservers_run(1) [OF assms(1) refl s(1)])
  ultimately show ?thesis
    using lookup_inv_reachable [OF s(3)] s(2) good_answer_set by (metis lookup_inv_def caller_ok.simps(4))
qed

section \<open>A blocked worker\<close>

text \<open>The timer can always end the wait.\<close>

lemma lookup_timeout: "\<exists>err. lookup_outcome L E may_answer net req r (Inl err) r"
proof -
  obtain ord where ord: "range_order ord (rttServers r)" using range_order_exists by blast
  let ?ns = "Nameservers ord r (q_Name (hd (Msg_Question req)))"
  let ?s = "(start_lookup ?ns r)\<lparr>caller := Returned (Inl (lookup_error net req ?ns))\<rparr>"
  have "lookup_step L E may_answer net req ?ns (start_lookup ?ns r) ?s"
    by (rule lookup_step.timeout) (simp add: start_lookup_def)
  then have "lookup_reachable L E may_answer net req ?ns r ?s" unfolding lookup_reachable_def by (rule r_into_rtranclp)
  moreover have "pool ?s = r" by (simp add: start_lookup_def)
  ultimately show ?thesis using ord unfolding lookup_outcome_def
    by (metis lookup.simps(4) lookup.surjective lookup.update_convs(4))
qed

definition blocked :: "nat \<Rightarrow> RResp \<Rightarrow> lookup \<Rightarrow> bool" where
  "blocked i re s \<longleftrightarrow> cancelled s \<and> chan s \<noteq> [] \<and> i < length (workers s) \<and> workers s ! i = Sending re"

lemma blocked_step:
  assumes "lookup_step L E may_answer net req nameservers s t" and "blocked i re s"
  shows "blocked i re t"
  using assms by (elim lookup_stepE) (auto simp: blocked_def cancelled_def nth_list_update split: caller.splits)

lemma blocked_forever:
  "(lookup_step L E may_answer net req nameservers)\<^sup>*\<^sup>* s t \<Longrightarrow> blocked i re s \<Longrightarrow> blocked i re t"
  by (induction rule: rtranclp_induct) (auto intro: blocked_step)

lemma reachable_step:
  "lookup_reachable L E may_answer net req nameservers r s \<Longrightarrow>
   lookup_step L E may_answer net req nameservers s t \<Longrightarrow> lookup_reachable L E may_answer net req nameservers r t"
  unfolding lookup_reachable_def by (rule rtranclp.rtrancl_into_rtrancl)

lemma reachable_start: "lookup_reachable L E may_answer net req nameservers r (start_lookup nameservers r)"
  by (simp add: lookup_reachable_def)

text \<open>The first nameserver answers at once.\<close>

lemma answer_run:
  assumes "may_answer net (prepare_request L (resolv_config r) req) n a rtt" and "Rcode a \<noteq> RcodeServerFailure"
    and "\<not> DNSSECEnable (resolv_config r)"
  shows "\<exists>s. lookup_reachable L E may_answer net req (n # ns) r s \<and> caller s = Returned (Inr a)"
proof -
  define reach where "reach = lookup_reachable L E may_answer net req (n # ns) r"
  define re where "re = \<lparr>resp_msg = a, resp_nameserver = n, resp_rtt = rtt\<rparr>"
  let ?S = "\<lambda>x ch ca. \<lparr>workers = x # replicate (length ns) Starting, chan = ch, chan_closed = False,
    caller = ca, pool = r\<rparr>"
  note go = reachable_step [of L E may_answer net req "n # ns" r, folded reach_def]
  note simps = set_worker_def cancelled_def
  have "reach (?S Starting [] Waiting)"
    using reachable_start [of L E may_answer net req "n # ns" r] by (simp add: reach_def start_lookup_def)
  from go [OF this lookup_step.ask [of 0]] have "reach (?S Asking [] Waiting)" by (simp add: simps)
  from go [OF this lookup_step.answer [of 0 _ _ _ _ _ _ a rtt]] assms(1,2)
  have "reach (?S (Sending re) [] Waiting)" by (simp add: simps re_def)
  from go [OF this lookup_step.send [of 0 _ re]] have "reach (?S Exited [re] Waiting)" by (simp add: simps)
  from go [OF this lookup_step.receive [of _ re "[]"]] have got: "reach (?S Exited [] (Received re))" by simp
  obtain r' and w w' :: 'a where fin: "finish_lookup 0 [] L E re r w = Some (Return (a, r', w'))"
    using assms(3) by (simp add: finish_lookup_def re_def)
  from go [OF got lookup_step.finish [of _ re 0 "[]" _ _ w a r' w']] fin
  have "reach ((?S Exited [] (Returned (Inr a)))\<lparr>pool := r'\<rparr>)" by simp
  then show ?thesis unfolding reach_def by force
qed

definition run_state :: "worker list \<Rightarrow> RResp list \<Rightarrow> caller \<Rightarrow> Resolver \<Rightarrow> lookup" where
  "run_state ws ch ca r = \<lparr>workers = ws, chan = ch, chan_closed = False, caller = ca, pool = r\<rparr>"

lemma three_answers:
  assumes "may_answer net (prepare_request L (resolv_config r) req) n0 a0 rtt0" "Rcode a0 \<noteq> RcodeServerFailure"
    and "may_answer net (prepare_request L (resolv_config r) req) n1 a1 rtt1" "Rcode a1 \<noteq> RcodeServerFailure"
    and "may_answer net (prepare_request L (resolv_config r) req) n2 a2 rtt2" "Rcode a2 \<noteq> RcodeServerFailure"
  shows "lookup_reachable L E may_answer net req [n0, n1, n2] r (run_state
    [Sending \<lparr>resp_msg = a0, resp_nameserver = n0, resp_rtt = rtt0\<rparr>,
     Sending \<lparr>resp_msg = a1, resp_nameserver = n1, resp_rtt = rtt1\<rparr>,
     Sending \<lparr>resp_msg = a2, resp_nameserver = n2, resp_rtt = rtt2\<rparr>] [] Waiting r)"
proof -
  define reach where "reach = lookup_reachable L E may_answer net req [n0, n1, n2] r"
  note go = reachable_step [of L E may_answer net req "[n0, n1, n2]" r, folded reach_def]
  note simps = set_worker_def cancelled_def run_state_def numeral_2_eq_2
  have "reach (run_state [Starting, Starting, Starting] [] Waiting r)"
    using reachable_start [of L E may_answer net req "[n0, n1, n2]" r]
    by (simp add: reach_def start_lookup_def run_state_def numeral_3_eq_3)
  from go [OF this lookup_step.ask [of 0]] have "reach (run_state [Asking, Starting, Starting] [] Waiting r)"
    by (simp add: simps)
  from go [OF this lookup_step.ask [of 1]] have "reach (run_state [Asking, Asking, Starting] [] Waiting r)"
    by (simp add: simps)
  from go [OF this lookup_step.ask [of 2]] have "reach (run_state [Asking, Asking, Asking] [] Waiting r)"
    by (simp add: simps)
  from go [OF this lookup_step.answer [of 0 _ _ _ _ _ _ a0 rtt0]] assms(1,2)
  have "reach (run_state [Sending \<lparr>resp_msg = a0, resp_nameserver = n0, resp_rtt = rtt0\<rparr>, Asking, Asking] [] Waiting r)"
    by (simp add: simps)
  from go [OF this lookup_step.answer [of 1 _ _ _ _ _ _ a1 rtt1]] assms(3,4)
  have "reach (run_state [Sending \<lparr>resp_msg = a0, resp_nameserver = n0, resp_rtt = rtt0\<rparr>,
      Sending \<lparr>resp_msg = a1, resp_nameserver = n1, resp_rtt = rtt1\<rparr>, Asking] [] Waiting r)" by (simp add: simps)
  from go [OF this lookup_step.answer [of 2 _ _ _ _ _ _ a2 rtt2]] assms(5,6)
  show ?thesis by (simp add: simps reach_def)
qed

text \<open>The caller takes the first response, the second one fills the channel, and the third one stays.\<close>

lemma leak_run:
  assumes "may_answer net (prepare_request L (resolv_config r) req) n0 a0 rtt0" "Rcode a0 \<noteq> RcodeServerFailure"
    and "may_answer net (prepare_request L (resolv_config r) req) n1 a1 rtt1" "Rcode a1 \<noteq> RcodeServerFailure"
    and "may_answer net (prepare_request L (resolv_config r) req) n2 a2 rtt2" "Rcode a2 \<noteq> RcodeServerFailure"
    and "\<not> DNSSECEnable (resolv_config r)"
  shows "\<exists>s. lookup_reachable L E may_answer net req [n0, n1, n2] r s \<and> caller s = Returned (Inr a0) \<and>
    (\<exists>re. \<forall>t. (lookup_step L E may_answer net req [n0, n1, n2])\<^sup>*\<^sup>* s t \<longrightarrow> workers t ! 2 = Sending re)"
proof -
  define reach where "reach = lookup_reachable L E may_answer net req [n0, n1, n2] r"
  define re0 re1 re2 where "re0 = \<lparr>resp_msg = a0, resp_nameserver = n0, resp_rtt = rtt0\<rparr>"
    and "re1 = \<lparr>resp_msg = a1, resp_nameserver = n1, resp_rtt = rtt1\<rparr>"
    and "re2 = \<lparr>resp_msg = a2, resp_nameserver = n2, resp_rtt = rtt2\<rparr>"
  note go = reachable_step [of L E may_answer net req "[n0, n1, n2]" r, folded reach_def]
  note simps = set_worker_def run_state_def
  have "reach (run_state [Sending re0, Sending re1, Sending re2] [] Waiting r)"
    unfolding reach_def re0_def re1_def re2_def by (rule three_answers [where may_answer = may_answer, OF assms(1-6)])
  from go [OF this lookup_step.send [of 0 _ re0]]
  have "reach (run_state [Exited, Sending re1, Sending re2] [re0] Waiting r)" by (simp add: simps)
  from go [OF this lookup_step.receive [of _ re0 "[]"]]
  have "reach (run_state [Exited, Sending re1, Sending re2] [] (Received re0) r)" by (simp add: simps)
  from go [OF this lookup_step.send [of 1 _ re1]]
  have got: "reach (run_state [Exited, Exited, Sending re2] [re1] (Received re0) r)" by (simp add: simps)
  obtain r' and w w' :: 'a where fin: "finish_lookup 0 [] L E re0 r w = Some (Return (a0, r', w'))"
    using assms(7) by (simp add: finish_lookup_def re0_def)
  let ?s = "run_state [Exited, Exited, Sending re2] [re1] (Returned (Inr a0)) r'"
  from go [OF got lookup_step.finish [of _ re0 0 "[]" _ _ w a0 r' w']] fin have end_reached: "reach ?s"
    by (simp add: simps)
  have bl: "blocked 2 re2 ?s" by (simp add: blocked_def cancelled_def run_state_def)
  have "\<forall>t. (lookup_step L E may_answer net req [n0, n1, n2])\<^sup>*\<^sup>* ?s t \<longrightarrow> workers t ! 2 = Sending re2"
    using blocked_forever [OF _ bl] unfolding blocked_def by blast
  moreover have "caller ?s = Returned (Inr a0)" by (simp add: run_state_def)
  ultimately show ?thesis using end_reached unfolding reach_def by blast
qed

section \<open>Properties\<close>

text \<open>C4: A lookup that returns a message returns one that a queried nameserver gave for the request
  and that is not a server failure, and a lookup that fails names the question, the network and the
  servers; no goroutine sends on the closed channel, which never holds more than one response.\<close>

theorem lookup_result:
  assumes "lookup_reachable L E may_answer net req nameservers r s"
  shows "(\<forall>m. caller s = Returned (Inr m) \<longrightarrow>
            good_answer L may_answer net req nameservers (resolv_config r) m) \<and>
         (\<forall>e. caller s = Returned (Inl e) \<longrightarrow>
            e = ResolvError (q_Name (hd (Msg_Question req))) net nameservers) \<and>
         (chan_closed s \<longrightarrow> (\<forall>re. Sending re \<notin> set (workers s))) \<and> length (chan s) \<le> 1"
proof -
  note inv = lookup_inv_reachable [OF assms]
  show ?thesis using inv lookup_error_only [OF assms] by (auto simp: lookup_inv_def lookup_error_def)
qed


text \<open>C36: Goroutines leak: with three nameservers that answer, a lookup can return while a worker is
  blocked for ever, since the channel takes one response after the one that was received, and
  nobody receives any more.\<close>

theorem lookup_leaks_goroutine:
  assumes "may_answer net (prepare_request L (resolv_config r) req) n0 a0 rtt0" "Rcode a0 \<noteq> RcodeServerFailure"
    and "may_answer net (prepare_request L (resolv_config r) req) n1 a1 rtt1" "Rcode a1 \<noteq> RcodeServerFailure"
    and "may_answer net (prepare_request L (resolv_config r) req) n2 a2 rtt2" "Rcode a2 \<noteq> RcodeServerFailure"
    and "\<not> DNSSECEnable (resolv_config r)"
  shows "\<exists>s. lookup_reachable L E may_answer net req [n0, n1, n2] r s \<and> caller s = Returned (Inr a0) \<and>
    (\<exists>re. \<forall>t. (lookup_step L E may_answer net req [n0, n1, n2])\<^sup>*\<^sup>* s t \<longrightarrow> workers t ! 2 = Sending re)"
  by (rule leak_run [where may_answer = may_answer, OF assms])

section \<open>Witnesses\<close>

definition plain_settings :: ResolvSettings where
  "plain_settings = sample_settings\<lparr>DNSSECEnable := False\<rparr>"

definition sample_query :: Msg where
  "sample_query = new_Msg\<lparr>Msg_Question := [\<lparr>q_Name = ''a.b.'', q_Qtype = TypeA, q_Qclass = ClassINET\<rparr>]\<rparr>"

definition echo :: network where
  "echo net req nameserver a rtt \<longleftrightarrow> a = req"

definition plain_resolver :: Resolver where
  "plain_resolver = sample_resolver\<lparr>resolv_config := plain_settings\<rparr>"

lemma echo_facts:
  "echo net (prepare_request sample_lib (resolv_config plain_resolver) sample_query) n sample_query t"
  "Rcode sample_query \<noteq> RcodeServerFailure" "\<not> DNSSECEnable (resolv_config plain_resolver)"
  by (simp_all add: echo_def prepare_request_def plain_resolver_def plain_settings_def sample_settings_def
      sample_query_def new_Msg_def RcodeServerFailure_def)

lemmas echo_run_facts = echo_facts(1,2) echo_facts(1,2) echo_facts(1,2) echo_facts(3)

lemma plain_NewResolver: "NewResolver L fs sample_conf plain_settings = Return (Inr plain_resolver)"
  by (simp add: NewResolver_def NewDNSSECValidator_def load_resolv_file_def sample_conf_def plain_settings_def
      sample_settings_def plain_resolver_def sample_resolver_def JoinHostPort_def seconds_5)

lemma plain_lookup:
  "\<exists>r. lookup_outcome sample_lib sample_env echo net sample_query plain_resolver (Inr sample_query) r"
proof -
  let ?ord = "[''10.0.0.1:53'', ''10.0.0.2:53'']"
  have ord: "range_order ?ord (rttServers plain_resolver)"
    by (simp add: range_order_def plain_resolver_def sample_resolver_def init_rtt_dom)
  then have "set (Nameservers ?ord plain_resolver ''a.b.'') = set (configured plain_resolver)"
    using Nameservers_run(1) [OF plain_NewResolver, of plain_resolver "[]"] by simp
  then obtain n ns where "Nameservers ?ord plain_resolver ''a.b.'' = n # ns"
    using configured_not_Nil [of plain_resolver] by (cases "Nameservers ?ord plain_resolver ''a.b.''") auto
  moreover have "q_Name (hd (Msg_Question sample_query)) = ''a.b.''" by (simp add: sample_query_def)
  ultimately show ?thesis
    using ord answer_run [where may_answer = echo and E = sample_env and net = net and n = n and ns = ns, OF echo_facts] unfolding lookup_outcome_def by metis
qed

theorem lookup_leaks_goroutine_witness:
  "\<exists>s re. lookup_reachable sample_lib sample_env echo ''tcp'' sample_query [''x'', ''y'', ''z''] plain_resolver s \<and>
     caller s = Returned (Inr sample_query) \<and> workers s ! 2 = Sending re"
  using lookup_leaks_goroutine [where may_answer = echo and E = sample_env and net = "''tcp''" and ?n0.0 = "''x''" and ?n1.0 = "''y''"
      and ?n2.0 = "''z''", OF echo_run_facts] by blast

theorem lookup_result_witness:
  "\<exists>s. lookup_reachable sample_lib sample_env echo ''tcp'' sample_query [''x'', ''y'', ''z''] plain_resolver s \<and>
     caller s = Returned (Inr sample_query) \<and>
     good_answer sample_lib echo ''tcp'' sample_query [''x'', ''y'', ''z''] (resolv_config plain_resolver) sample_query"
proof -
  obtain s where s: "lookup_reachable sample_lib sample_env echo ''tcp'' sample_query [''x'', ''y'', ''z''] plain_resolver s"
    "caller s = Returned (Inr sample_query)"
    using leak_run [where may_answer = echo and E = sample_env and net = "''tcp''" and ?n0.0 = "''x''" and ?n1.0 = "''y''"
      and ?n2.0 = "''z''", OF echo_run_facts] by blast
  from lookup_result [OF s(1)] s show ?thesis by blast
qed


end
