(* ===== verification/Go_MD5.thy ===== *)
theory Go_MD5
  imports Go_Net
begin

unbundle bit_operations_syntax

text \<open>
  Package \<open>crypto/md5\<close> of the standard library: the digest of RFC 1321 over words of 32 bits, and the
  text that \<open>fmt.Sprintf\<close> makes of it with the verb \<open>%x\<close>.
\<close>

definition md5_K :: "32 word list" where
  "md5_K =
    [0xd76aa478, 0xe8c7b756, 0x242070db, 0xc1bdceee, 0xf57c0faf, 0x4787c62a, 0xa8304613, 0xfd469501,
     0x698098d8, 0x8b44f7af, 0xffff5bb1, 0x895cd7be, 0x6b901122, 0xfd987193, 0xa679438e, 0x49b40821,
     0xf61e2562, 0xc040b340, 0x265e5a51, 0xe9b6c7aa, 0xd62f105d, 0x02441453, 0xd8a1e681, 0xe7d3fbc8,
     0x21e1cde6, 0xc33707d6, 0xf4d50d87, 0x455a14ed, 0xa9e3e905, 0xfcefa3f8, 0x676f02d9, 0x8d2a4c8a,
     0xfffa3942, 0x8771f681, 0x6d9d6122, 0xfde5380c, 0xa4beea44, 0x4bdecfa9, 0xf6bb4b60, 0xbebfbc70,
     0x289b7ec6, 0xeaa127fa, 0xd4ef3085, 0x04881d05, 0xd9d4d039, 0xe6db99e5, 0x1fa27cf8, 0xc4ac5665,
     0xf4292244, 0x432aff97, 0xab9423a7, 0xfc93a039, 0x655b59c3, 0x8f0ccc92, 0xffeff47d, 0x85845dd1,
     0x6fa87e4f, 0xfe2ce6e0, 0xa3014314, 0x4e0811a1, 0xf7537e82, 0xbd3af235, 0x2ad7d2bb, 0xeb86d391]"

definition md5_S :: "nat list" where
  "md5_S = concat (map (\<lambda>r. concat (replicate 4 r)) [[7, 12, 17, 22], [5, 9, 14, 20], [4, 11, 16, 23], [6, 10, 15, 21]])"

type_synonym md5_state = "32 word \<times> 32 word \<times> 32 word \<times> 32 word"

text \<open>The function of a round and the word of the block it takes.\<close>

definition md5_F :: "nat \<Rightarrow> 32 word \<Rightarrow> 32 word \<Rightarrow> 32 word \<Rightarrow> 32 word \<times> nat" where
  "md5_F i b c d =
     (if i < 16 then ((b AND c) OR (NOT b AND d), i)
      else if i < 32 then ((d AND b) OR (NOT d AND c), (5 * i + 1) mod 16)
      else if i < 48 then (b XOR c XOR d, (3 * i + 5) mod 16)
      else (c XOR (b OR NOT d), (7 * i) mod 16))"

definition md5_round :: "32 word list \<Rightarrow> nat \<Rightarrow> md5_state \<Rightarrow> md5_state" where
  "md5_round block i st =
     (let (a, b, c, d) = st; (f, g) = md5_F i b c d
      in (d, b + word_rotl (md5_S ! i) (f + a + md5_K ! i + block ! g), b, c))"

definition md5_block :: "32 word list \<Rightarrow> md5_state \<Rightarrow> md5_state" where
  "md5_block block st =
     (let (a, b, c, d) = st; (a', b', c', d') = fold (md5_round block) [0..<64] st
      in (a + a', b + b', c + c', d + d'))"

definition le_word :: "byte list \<Rightarrow> 32 word" where
  "le_word bs = foldr (\<lambda>b w. push_bit 8 w OR ucast b) bs 0"

definition le_bytes :: "nat \<Rightarrow> nat \<Rightarrow> byte list" where
  "le_bytes k n = map (\<lambda>i. of_nat (n div 256 ^ i)) [0..<k]"

fun chunks :: "nat \<Rightarrow> nat \<Rightarrow> 'a list \<Rightarrow> 'a list list" where
  "chunks 0 n xs = []"
| "chunks (Suc count) n xs = take n xs # chunks count n (drop n xs)"

definition md5_pad :: "byte list \<Rightarrow> byte list" where
  "md5_pad bs =
     (let n = length bs; z = (119 - n mod 64) mod 64
      in bs @ [0x80] @ replicate z 0 @ le_bytes 8 (8 * n))"

definition md5_sum :: "byte list \<Rightarrow> byte list" where
  "md5_sum bs =
     (let padded = md5_pad bs;
          blocks = map (\<lambda>b. map le_word (chunks 16 4 b)) (chunks (length padded div 64) 64 padded);
          (a, b, c, d) = fold md5_block blocks (0x67452301, 0xefcdab89, 0x98badcfe, 0x10325476)
      in concat (map (\<lambda>w. le_bytes 4 (unat w)) [a, b, c, d]))"

definition hex_text :: "byte list \<Rightarrow> string" where
  "hex_text bs = concat (map hex_byte bs)"

lemma length_md5_sum: "length (md5_sum bs) = 16"
  by (simp add: md5_sum_def Let_def le_bytes_def split: prod.splits)

definition hex_chars :: string where
  "hex_chars = ''0123456789abcdef''"

lemma hex_digit_range: "n < 16 \<Longrightarrow> hex_digit n \<in> set hex_chars"
proof -
  have "list_all (\<lambda>n. hex_digit n \<in> set hex_chars) [0..<16]"
    unfolding hex_digit_def hex_chars_def by code_simp
  then show "n < 16 \<Longrightarrow> ?thesis" by (simp add: list_all_iff)
qed

lemma hex_byte_range: "set (hex_byte b) \<subseteq> set hex_chars"
proof -
  have "unat b < 256" using unsigned_less [of b] by simp
  then have "unat b div 16 < 16" "unat b mod 16 < 16" by simp_all
  then show ?thesis by (simp add: hex_byte_def hex_digit_range)
qed

lemma hex_text_shape: "length (hex_text bs) = 2 * length bs" "set (hex_text bs) \<subseteq> set hex_chars"
proof -
  show "length (hex_text bs) = 2 * length bs"
    by (induction bs) (simp_all add: hex_text_def hex_byte_def)
  show "set (hex_text bs) \<subseteq> set hex_chars"
    unfolding hex_text_def using hex_byte_range by fastforce
qed

end
