(* ===== verification/Cache_Backends.thy ===== *)
theory Cache_Backends
  imports Memory_Cache Settings Dns Go_MD5
begin

text \<open>
  The other caches of \<open>cache.go\<close>, over Memcached and over Redis, the interface that the handler
  uses, and \<open>KeyGen\<close>. The clients are library code: their commands are the fields of the argument
  \<open>S\<close>, acting on a state \<open>w\<close> that holds the servers (and the clock of the memory cache), with the
  address of the server as the first argument. Packing of messages is library code too, in \<open>L\<close>.
  The timeouts of the contexts are part of the commands. What the theorems rely on is the
  documented behaviour of a key-value server, \<open>redis_law\<close> and \<open>memcache_law\<close>, and of the packing,
  \<open>pack_law\<close>.
\<close>

section \<open>Clients\<close>

datatype redis_value = RedisNil | RedisFailed string | RedisValue string

record 'w cache_servers =
  Now :: "'w \<Rightarrow> time \<times> 'w"
  memcache_Get :: "string list \<Rightarrow> string \<Rightarrow> 'w \<Rightarrow> (string + string) \<times> 'w"
  memcache_Set :: "string list \<Rightarrow> string \<Rightarrow> string \<Rightarrow> int \<Rightarrow> 'w \<Rightarrow> string option \<times> 'w"
  memcache_Delete :: "string list \<Rightarrow> string \<Rightarrow> 'w \<Rightarrow> string option \<times> 'w"
  redis_Get :: "RedisSettings \<Rightarrow> string \<Rightarrow> 'w \<Rightarrow> redis_value \<times> 'w"
  redis_Set :: "RedisSettings \<Rightarrow> string \<Rightarrow> string \<Rightarrow> duration \<Rightarrow> 'w \<Rightarrow> string option \<times> 'w"
  redis_Exists :: "RedisSettings \<Rightarrow> string \<Rightarrow> 'w \<Rightarrow> (string + int) \<times> 'w"
  redis_Del :: "RedisSettings \<Rightarrow> string \<Rightarrow> 'w \<Rightarrow> string option \<times> 'w"

text \<open>What is stored for a message: its packed form, or the text \<open>nil\<close>.\<close>

definition stored_form :: "dns_lib \<Rightarrow> Msg option \<Rightarrow> string + string" where
  "stored_form L msg = (case msg of None \<Rightarrow> Inr ''nil'' | Some m \<Rightarrow> Pack L m)"

section \<open>Memcached\<close>

record MemcachedCache =
  mc_servers :: "string list"
  mc_expire :: int

definition NewMemcachedCache :: "string list \<Rightarrow> int \<Rightarrow> MemcachedCache" where
  "NewMemcachedCache servers expire = \<lparr>mc_servers = servers, mc_expire = expire\<rparr>"

definition MemcachedCache_Set ::
  "dns_lib \<Rightarrow> 'w cache_servers \<Rightarrow> MemcachedCache \<Rightarrow> string \<Rightarrow> Msg option \<Rightarrow> 'w \<Rightarrow> cache_error option \<times> 'w" where
  "MemcachedCache_Set L S m key msg w =
     (case stored_form L msg of
        Inl err \<Rightarrow> (Some (SerializerError err), w)
      | Inr val \<Rightarrow>
          let (err, w') = memcache_Set S (mc_servers m) key val (mc_expire m) w
          in (map_option BackendError err, w'))"

definition MemcachedCache_Get ::
  "dns_lib \<Rightarrow> 'w cache_servers \<Rightarrow> MemcachedCache \<Rightarrow> string \<Rightarrow> 'w \<Rightarrow> (cache_error + Msg option) \<times> 'w" where
  "MemcachedCache_Get L S m key w =
     (case memcache_Get S (mc_servers m) key w of
        (Inl err, w') \<Rightarrow> (Inl (KeyNotFound key), w')
      | (Inr value, w') \<Rightarrow>
          (case Unpack L value of
             Inl err \<Rightarrow> (Inl (SerializerError err), w')
           | Inr msg \<Rightarrow> (Inr (Some msg), w')))"

definition MemcachedCache_Exists :: "'w cache_servers \<Rightarrow> MemcachedCache \<Rightarrow> string \<Rightarrow> 'w \<Rightarrow> bool \<times> 'w" where
  "MemcachedCache_Exists S m key w =
     (case memcache_Get S (mc_servers m) key w of (Inl err, w') \<Rightarrow> (False, w') | (Inr v, w') \<Rightarrow> (True, w'))"

definition MemcachedCache_Remove ::
  "'w cache_servers \<Rightarrow> MemcachedCache \<Rightarrow> string \<Rightarrow> 'w \<Rightarrow> cache_error option \<times> 'w" where
  "MemcachedCache_Remove S m key w =
     (let (err, w') = memcache_Delete S (mc_servers m) key w in (map_option BackendError err, w'))"

definition MemcachedCache_Full :: "MemcachedCache \<Rightarrow> bool" where
  "MemcachedCache_Full m = False"

section \<open>Redis\<close>

record RedisCache =
  rc_settings :: RedisSettings
  rc_Expire :: duration

definition NewRedisCache :: "RedisSettings \<Rightarrow> int \<Rightarrow> RedisCache" where
  "NewRedisCache rs expire = \<lparr>rc_settings = rs, rc_Expire = seconds expire\<rparr>"

definition RedisCache_Get ::
  "dns_lib \<Rightarrow> 'w cache_servers \<Rightarrow> RedisCache \<Rightarrow> string \<Rightarrow> 'w \<Rightarrow> (cache_error + Msg option) \<times> 'w" where
  "RedisCache_Get L S r key w =
     (case redis_Get S (rc_settings r) key w of
        (RedisNil, w') \<Rightarrow> (Inl (KeyNotFound key), w')
      | (RedisFailed err, w') \<Rightarrow> (Inl (BackendError err), w')
      | (RedisValue item, w') \<Rightarrow>
          if item = ''nil'' then (Inr None, w')
          else (case Unpack L item of
             Inl err \<Rightarrow> (Inl (SerializerError err), w')
           | Inr msg \<Rightarrow> (Inr (Some msg), w')))"

definition RedisCache_Set ::
  "dns_lib \<Rightarrow> 'w cache_servers \<Rightarrow> RedisCache \<Rightarrow> string \<Rightarrow> Msg option \<Rightarrow> 'w \<Rightarrow> cache_error option \<times> 'w" where
  "RedisCache_Set L S r key msg w =
     (case stored_form L msg of
        Inl err \<Rightarrow> (Some (SerializerError err), w)
      | Inr val \<Rightarrow>
          let (err, w') = redis_Set S (rc_settings r) key val (rc_Expire r) w
          in (map_option BackendError err, w'))"

definition RedisCache_Exists :: "'w cache_servers \<Rightarrow> RedisCache \<Rightarrow> string \<Rightarrow> 'w \<Rightarrow> bool \<times> 'w" where
  "RedisCache_Exists S r key w =
     (case redis_Exists S (rc_settings r) key w of (Inl err, w') \<Rightarrow> (False, w') | (Inr v, w') \<Rightarrow> (v > 0, w'))"

definition RedisCache_Remove ::
  "'w cache_servers \<Rightarrow> RedisCache \<Rightarrow> string \<Rightarrow> 'w \<Rightarrow> cache_error option \<times> 'w" where
  "RedisCache_Remove S r key w =
     (let (err, w') = redis_Del S (rc_settings r) key w in (map_option BackendError err, w'))"

definition RedisCache_Full :: "RedisCache \<Rightarrow> bool" where
  "RedisCache_Full r = False"

section \<open>The interface\<close>

datatype Cache = In_Memory "Msg MemoryCache" | In_Memcached MemcachedCache | In_Redis RedisCache

definition Cache_Get ::
  "dns_lib \<Rightarrow> 'w cache_servers \<Rightarrow> Cache \<Rightarrow> string \<Rightarrow> 'w \<Rightarrow> (cache_error + Msg option) \<times> Cache \<times> 'w" where
  "Cache_Get L S c key w =
     (case c of
        In_Memory m \<Rightarrow>
          let (now, w') = Now S w; (res, m') = MemoryCache_Get now m key in (res, In_Memory m', w')
      | In_Memcached m \<Rightarrow> let (res, w') = MemcachedCache_Get L S m key w in (res, c, w')
      | In_Redis r \<Rightarrow> let (res, w') = RedisCache_Get L S r key w in (res, c, w'))"

definition Cache_Set ::
  "dns_lib \<Rightarrow> 'w cache_servers \<Rightarrow> Cache \<Rightarrow> string \<Rightarrow> Msg option \<Rightarrow> 'w \<Rightarrow> cache_error option \<times> Cache \<times> 'w" where
  "Cache_Set L S c key msg w =
     (case c of
        In_Memory m \<Rightarrow>
          let (now, w') = Now S w; (err, m') = MemoryCache_Set now m key msg in (err, In_Memory m', w')
      | In_Memcached m \<Rightarrow> let (err, w') = MemcachedCache_Set L S m key msg w in (err, c, w')
      | In_Redis r \<Rightarrow> let (err, w') = RedisCache_Set L S r key msg w in (err, c, w'))"

section \<open>Keys\<close>

record CacheQuestion =
  qname :: string
  qtype :: string
  qclass :: string

definition Question_String :: "CacheQuestion \<Rightarrow> string" where
  "Question_String q = qname q @ '' '' @ qclass q @ '' '' @ qtype q"

definition KeyGen :: "CacheQuestion \<Rightarrow> string" where
  "KeyGen q = hex_text (md5_sum (map (\<lambda>c. of_nat (of_char c)) (Question_String q)))"

section \<open>Documented behaviour of the servers\<close>

text \<open>A value that was set without an error is what the next command reads for the key.\<close>

definition redis_law :: "'w cache_servers \<Rightarrow> bool" where
  "redis_law S \<longleftrightarrow>
     (\<forall>rs key val d w w'. redis_Set S rs key val d w = (None, w') \<longrightarrow>
        fst (redis_Get S rs key w') = RedisValue val)"

definition memcache_law :: "'w cache_servers \<Rightarrow> bool" where
  "memcache_law S \<longleftrightarrow>
     (\<forall>servers key val d w w'. memcache_Set S servers key val d w = (None, w') \<longrightarrow>
        fst (memcache_Get S servers key w') = Inr val)"

text \<open>Unpacking the packed form of a message gives the message. The packed form begins with the twelve
  bytes of the header, so a shorter text is not one.\<close>

definition pack_law :: "dns_lib \<Rightarrow> bool" where
  "pack_law L \<longleftrightarrow>
     (\<forall>m s. Pack L m = Inr s \<longrightarrow> Unpack L s = Inr m \<and> 12 \<le> length s) \<and>
     (\<forall>s. length s < 12 \<longrightarrow> (\<exists>err. Unpack L s = Inl err))"

section \<open>The contract of a remote cache\<close>

text \<open>
  Both remote caches write the stored form of a message and read it back; they differ in what they
  make of the text \<open>nil\<close>. The contract: a write either fails with an error of the packing or the
  server, or leaves the stored form of the message to be read by the next command.
\<close>

locale remote_cache =
  fixes set :: "string \<Rightarrow> Msg option \<Rightarrow> 'w \<Rightarrow> cache_error option \<times> 'w"
    and get :: "string \<Rightarrow> 'w \<Rightarrow> (cache_error + Msg option) \<times> 'w"
    and L :: dns_lib
    and law :: bool
    and decode :: "string \<Rightarrow> cache_error + Msg option"
  assumes set_get: "law \<Longrightarrow> set key msg w = (None, w') \<Longrightarrow>
        \<exists>val. stored_form L msg = Inr val \<and> fst (get key w') = decode val"
    and decode_msg: "12 \<le> length val \<Longrightarrow>
        decode val = (case Unpack L val of Inl err \<Rightarrow> Inl (SerializerError err) | Inr m \<Rightarrow> Inr (Some m))"
    and set_unpacked: "stored_form L msg = Inl err \<Longrightarrow> set key msg w = (Some (SerializerError err), w)"
begin

lemma set_get_msg:
  assumes law "pack_law L" "set key (Some m) w = (None, w')"
  shows "fst (get key w') = Inr (Some m)"
proof -
  obtain val where "stored_form L (Some m) = Inr val" "fst (get key w') = decode val"
    using set_get [OF assms(1,3)] by blast
  with assms(2) decode_msg [of val] show ?thesis by (auto simp: stored_form_def pack_law_def)
qed

lemma set_get_nil:
  assumes law "set key None w = (None, w')"
  shows "fst (get key w') = decode ''nil''"
  using set_get [OF assms] by (auto simp: stored_form_def)

end

definition redis_decode :: "dns_lib \<Rightarrow> string \<Rightarrow> cache_error + Msg option" where
  "redis_decode L item =
     (if item = ''nil'' then Inr None
      else case Unpack L item of Inl err \<Rightarrow> Inl (SerializerError err) | Inr msg \<Rightarrow> Inr (Some msg))"

definition memcache_decode :: "dns_lib \<Rightarrow> string \<Rightarrow> cache_error + Msg option" where
  "memcache_decode L value =
     (case Unpack L value of Inl err \<Rightarrow> Inl (SerializerError err) | Inr msg \<Rightarrow> Inr (Some msg))"

lemma RedisCache_Get_decode:
  "redis_Get S (rc_settings r) key w = (RedisValue item, w') \<Longrightarrow>
     RedisCache_Get L S r key w = (redis_decode L item, w')"
  by (auto simp: RedisCache_Get_def redis_decode_def split: sum.splits)

lemma MemcachedCache_Get_decode:
  "memcache_Get S (mc_servers m) key w = (Inr value, w') \<Longrightarrow>
     MemcachedCache_Get L S m key w = (memcache_decode L value, w')"
  by (auto simp: MemcachedCache_Get_def memcache_decode_def split: sum.splits)

interpretation redis: remote_cache "RedisCache_Set L S r" "RedisCache_Get L S r" L "redis_law S" "redis_decode L"
  for L S r
proof
  fix key msg w w'
  assume law: "redis_law S" and set: "RedisCache_Set L S r key msg w = (None, w')"
  then obtain val where val: "stored_form L msg = Inr val"
    "redis_Set S (rc_settings r) key val (rc_Expire r) w = (None, w')"
    by (auto simp: RedisCache_Set_def split: sum.splits prod.splits)
  with law have "fst (redis_Get S (rc_settings r) key w') = RedisValue val" by (auto simp: redis_law_def)
  then have "fst (RedisCache_Get L S r key w') = redis_decode L val"
    using RedisCache_Get_decode [of S r key w' val] by (metis fst_conv prod.collapse)
  with val show "\<exists>val. stored_form L msg = Inr val \<and> fst (RedisCache_Get L S r key w') = redis_decode L val"
    by blast
next
  fix val :: string assume "12 \<le> length val"
  then show "redis_decode L val =
      (case Unpack L val of Inl err \<Rightarrow> Inl (SerializerError err) | Inr m \<Rightarrow> Inr (Some m))"
    by (auto simp: redis_decode_def)
qed (simp add: RedisCache_Set_def)

interpretation memcached: remote_cache "MemcachedCache_Set L S m" "MemcachedCache_Get L S m" L "memcache_law S"
  "memcache_decode L" for L S m
proof
  fix key msg w w'
  assume law: "memcache_law S" and set: "MemcachedCache_Set L S m key msg w = (None, w')"
  then obtain val where val: "stored_form L msg = Inr val"
    "memcache_Set S (mc_servers m) key val (mc_expire m) w = (None, w')"
    by (auto simp: MemcachedCache_Set_def split: sum.splits prod.splits)
  with law have "fst (memcache_Get S (mc_servers m) key w') = Inr val" by (auto simp: memcache_law_def)
  then have "fst (MemcachedCache_Get L S m key w') = memcache_decode L val"
    using MemcachedCache_Get_decode [of S m key w' val] by (metis fst_conv prod.collapse)
  with val show "\<exists>val. stored_form L msg = Inr val \<and> fst (MemcachedCache_Get L S m key w') = memcache_decode L val"
    by blast
qed (simp_all add: MemcachedCache_Set_def memcache_decode_def)

section \<open>Properties\<close>

text \<open>C16: What is stored in the Redis cache comes back: a message that was set without an error is the
  next thing read for the key, and so is the \<open>nil\<close> of the negative cache, whatever the lifetime of
  the cache that reads it and the cache that wrote it.\<close>

theorem redis_cache_roundtrip:
  assumes "redis_law S" and "pack_law L" and "RedisCache_Set L S r key msg w = (None, w')"
    and "rc_settings r' = rc_settings r"
  shows "fst (RedisCache_Get L S r' key w') = Inr msg"
proof -
  have same: "RedisCache_Get L S r' key w' = RedisCache_Get L S r key w'"
    by (simp add: RedisCache_Get_def assms(4))
  show ?thesis
  proof (cases msg)
    case None
    with redis.set_get_nil [OF assms(1)] assms(3) show ?thesis unfolding same by (simp add: redis_decode_def)
  next
    case (Some m)
    with redis.set_get_msg [OF assms(1,2)] assms(3) show ?thesis unfolding same by simp
  qed
qed


text \<open>Cache keys: 32 lower-case hexadecimal digits, so a key is never empty and has no byte that a
  cache protocol treats specially; and the text that is hashed determines the question, as long as
  the names of types and classes have no blank.\<close>

theorem keys_identify_questions:
  assumes "CHR '' '' \<notin> set (qtype q)" "CHR '' '' \<notin> set (qclass q)"
    and "CHR '' '' \<notin> set (qtype q')" "CHR '' '' \<notin> set (qclass q')"
  shows "length (KeyGen q) = 32 \<and> set (KeyGen q) \<subseteq> set hex_chars \<and>
         (Question_String q = Question_String q' \<longleftrightarrow> q = q')"
proof -
  have last_split: "a @ CHR '' '' # b = a' @ CHR '' '' # b' \<Longrightarrow> a = a' \<and> b = b'"
    if "CHR '' '' \<notin> set b" "CHR '' '' \<notin> set b'" for a b a' b'
    using that by (auto simp: append_eq_append_conv2 append_eq_Cons_conv Cons_eq_append_conv)
  have "Question_String q = Question_String q' \<Longrightarrow> q = q'"
    using last_split [OF assms(1,3), of "qname q @ '' '' @ qclass q" "qname q' @ '' '' @ qclass q'"]
      last_split [OF assms(2,4), of "qname q" "qname q'"]
    by (simp add: Question_String_def)
  moreover have "length (KeyGen q) = 32" "set (KeyGen q) \<subseteq> set hex_chars"
    using hex_text_shape by (simp_all add: KeyGen_def length_md5_sum)
  ultimately show ?thesis by blast
qed

section \<open>A server for the witnesses\<close>

text \<open>One store of texts behind both clients, and a clock that stands still; a library that packs one
  message.\<close>

type_synonym kv = "string \<Rightarrow> string option"

definition kv_servers :: "kv cache_servers" where
  "kv_servers =
     \<lparr>Now = (\<lambda>w. (0, w)),
      memcache_Get = (\<lambda>_ key w. (case w key of None \<Rightarrow> Inl ''miss'' | Some v \<Rightarrow> Inr v, w)),
      memcache_Set = (\<lambda>_ key v _ w. (None, w(key \<mapsto> v))),
      memcache_Delete = (\<lambda>_ key w. (None, w(key := None))),
      redis_Get = (\<lambda>_ key w. (case w key of None \<Rightarrow> RedisNil | Some v \<Rightarrow> RedisValue v, w)),
      redis_Set = (\<lambda>_ key v _ w. (None, w(key \<mapsto> v))),
      redis_Exists = (\<lambda>_ key w. (Inr (if w key = None then 0 else 1), w)),
      redis_Del = (\<lambda>_ key w. (None, w(key := None)))\<rparr>"

lemma kv_laws: "redis_law kv_servers" "memcache_law kv_servers"
  by (auto simp: redis_law_def memcache_law_def kv_servers_def)

definition packing_lib :: "Msg \<Rightarrow> dns_lib" where
  "packing_lib m = sample_lib
     \<lparr>Pack := (\<lambda>m'. if m' = m then Inr (replicate 12 (CHR ''p'')) else Inl ''overflow''),
      Unpack := (\<lambda>s. if s = replicate 12 (CHR ''p'') then Inr m else Inl ''short'')\<rparr>"

lemma packing_law: "pack_law (packing_lib m)"
  by (auto simp: pack_law_def packing_lib_def)

definition sample_redis :: RedisCache where
  "sample_redis = NewRedisCache \<lparr>Addr = ''127.0.0.1:6379'', Password = [], DB = 0\<rparr> 600"

lemma kv_redis_Set:
  "stored_form L msg = Inr val \<Longrightarrow> RedisCache_Set L kv_servers r key msg w = (None, w(key \<mapsto> val))"
  by (simp add: RedisCache_Set_def kv_servers_def)

theorem redis_cache_roundtrip_witness:
  "fst (RedisCache_Get (packing_lib new_Msg) kv_servers sample_redis ''k'' [''k'' \<mapsto> ''nil'']) = Inr None"
  using redis_cache_roundtrip [OF kv_laws(1) packing_law
      kv_redis_Set [of "packing_lib new_Msg" None "''nil''" sample_redis "''k''" Map.empty], of sample_redis]
  by (simp add: stored_form_def)


theorem keys_identify_questions_witness:
  "length (KeyGen \<lparr>qname = ''a.b'', qtype = ''A'', qclass = ''IN''\<rparr>) = 32"
  using keys_identify_questions [of "\<lparr>qname = ''a.b'', qtype = ''A'', qclass = ''IN''\<rparr>"
      "\<lparr>qname = ''a.b'', qtype = ''A'', qclass = ''IN''\<rparr>"] by simp

end
