(* ===== verification/Handler.thy ===== *)
theory Handler
  imports Lookup Hosts Blocklist Cache_Backends
begin

text \<open>
  The query handler of \<open>handler.go\<close>: its construction from the settings, and \<open>Do\<close>, which answers a
  query from the blocklist, the hosts, the cache and the resolver, in this order.

  The arguments of \<open>Do\<close> beside its own: the settings; \<open>L\<close>, the DNS package; \<open>S\<close>, the cache servers
  and the clock; the orders of the ranges over the two tables of hosts; and \<open>lookup\<close>, the
  outcome of \<open>Lookup\<close> with what it leaves of the resolver, of which the theory \<open>Lookup\<close> says what can
  happen (\<open>lookup_outcome\<close>). What is written to the client is the list of messages. A panic is the
  dereference of a \<open>nil\<close> message.
\<close>

section \<open>The model\<close>

record GODNSHandler =
  resolver :: Resolver
  cache :: Cache
  negCache :: Cache
  hosts :: Hosts
  blocklist :: block

definition memory_caches :: "CacheSettings \<Rightarrow> Cache \<times> Cache" where
  "memory_caches c =
     (In_Memory (new_MemoryCache (seconds (cache_Expire c)) (cache_Maxcount c)),
      In_Memory (new_MemoryCache (quot (seconds (cache_Expire c)) 2) (cache_Maxcount c)))"

definition make_caches :: "Settings \<Rightarrow> Cache \<times> Cache" where
  "make_caches st =
     (let c = Cache_settings st in
      if cache_Backend c = ''memory'' then memory_caches c
      else if cache_Backend c = ''memcache'' then
        (In_Memcached (NewMemcachedCache (Servers (Memcache st)) (int32 (cache_Expire c))),
         In_Memcached (NewMemcachedCache (Servers (Memcache st)) (int32 (quot (cache_Expire c) 2))))
      else if cache_Backend c = ''redis'' then
        (In_Redis (NewRedisCache (Redis st) (cache_Expire c)),
         In_Redis (NewRedisCache (Redis st) (quot (cache_Expire c) 2)))
      else memory_caches c)"

definition blocklist_config :: "Settings \<Rightarrow> Config" where
  "blocklist_config st =
     (let b = Blocklist_settings st in
      \<lparr>Enable = bl_Enable b, Config_Backend = bl_Backend b, Config_File = bl_File b,
       WhitelistFile = bl_WhitelistFile b, RefreshInterval = bl_RefreshInterval b,
       RedisEnable = bl_RedisEnable b, RedisKey = bl_RedisKey b,
       RedisWhitelistKey = bl_RedisWhitelistKey b, Config_RedisSettings = IStruct ''RedisSettings''\<rparr>)"

definition NewHandler ::
  "dns_lib \<Rightarrow> filesystem \<Rightarrow> (string \<Rightarrow> (string list \<times> string) option) \<Rightarrow> smembers \<Rightarrow> Settings \<Rightarrow>
     (GODNSHandler \<times> refresher list) outcome" where
  "NewHandler L fs resolv_conf redis st =
     bind_outcome (NewResolver L fs resolv_conf (ResolvConfig st)) (\<lambda>res. case res of
        Inl err \<Rightarrow> Panic ''failed to initialize DNSSEC validator''
      | Inr r \<Rightarrow>
          let (c, n) = make_caches st in
          bind_outcome (NewHosts (Hosts_settings st)) (\<lambda>hs.
          bind_outcome (NewBlocklist fs redis (blocklist_config st)) (\<lambda>(b, gs).
            Return (\<lparr>resolver = r, cache = c, negCache = n, hosts = hs, blocklist = b\<rparr>, gs))))"

definition UnFqdn :: "dns_lib \<Rightarrow> string \<Rightarrow> string" where
  "UnFqdn L s = (if IsFqdn L s then take (length s - 1) s else s)"

definition getQuestionType :: "Question \<Rightarrow> int" where
  "getQuestionType q =
     (if q_Qtype q = TypeA then IP4Query else if q_Qtype q = TypeAAAA then IP6Query else notIPQuery)"

definition supported :: "Msg \<Rightarrow> bool" where
  "supported req \<longleftrightarrow>
     \<not> (Msg_Question req = [] \<or>
        q_Qtype (hd (Msg_Question req)) \<noteq> TypeA \<and> q_Qtype (hd (Msg_Question req)) \<noteq> TypeAAAA \<and>
        q_Qtype (hd (Msg_Question req)) \<noteq> TypeMX \<and> q_Qtype (hd (Msg_Question req)) \<noteq> TypeCNAME)"

definition cache_question :: "dns_lib \<Rightarrow> Question \<Rightarrow> CacheQuestion" where
  "cache_question L q =
     \<lparr>qname = UnFqdn L (q_Name q), qtype = Type_String L (q_Qtype q), qclass = Class_String L (q_Qclass q)\<rparr>"

text \<open>The records made from the hosts.\<close>

fun host_records :: "string \<Rightarrow> 32 word \<Rightarrow> ip list \<Rightarrow> rr list" where
  "host_records name ttl [] = []"
| "host_records name ttl (ip # ips) =
     (if To4 ip \<noteq> None
      then RR_A \<lparr>hdr_Name = name, hdr_Rrtype = TypeA, hdr_Class = ClassINET, hdr_Ttl = ttl\<rparr> ip
      else RR_AAAA \<lparr>hdr_Name = name, hdr_Rrtype = TypeAAAA, hdr_Class = ClassINET, hdr_Ttl = ttl\<rparr> ip)
     # host_records name ttl ips"

definition host_reply :: "dns_lib \<Rightarrow> Settings \<Rightarrow> Msg \<Rightarrow> Question \<Rightarrow> string \<Rightarrow> ip list \<Rightarrow> Msg" where
  "host_reply L st req q name ips =
     (let mesg = SetReply L new_Msg req; ttl = hosts_TTL (Hosts_settings st) in
      if q_Qtype q = TypeMX then
        mesg\<lparr>Authoritative := True,
          Answer := [RR_MX \<lparr>hdr_Name = Fqdn L name, hdr_Rrtype = TypeMX, hdr_Class = ClassINET, hdr_Ttl = ttl\<rparr>
            10 (''mail.'' @ Fqdn L name)]\<rparr>
      else mesg\<lparr>Authoritative := True, Answer := host_records (Fqdn L name) ttl ips\<rparr>)"

definition blocked_reply :: "dns_lib \<Rightarrow> Msg \<Rightarrow> Msg" where
  "blocked_reply L req = SetRcode L (SetReply L new_Msg req) req RcodeNameError"

type_synonym 'w reply = "(GODNSHandler \<times> Msg list \<times> 'w) outcome"
type_synonym lookup_fun = "string \<Rightarrow> Msg \<Rightarrow> Resolver \<Rightarrow> (ResolvError + Msg) \<times> Resolver"

definition do_resolve ::
  "dns_lib \<Rightarrow> 'w cache_servers \<Rightarrow> lookup_fun \<Rightarrow> GODNSHandler \<Rightarrow> string \<Rightarrow> Msg \<Rightarrow> string \<Rightarrow> 'w \<Rightarrow> 'w reply" where
  "do_resolve L S lookup h net req key w =
     (case lookup net req (resolver h) of
        (Inl err, r) \<Rightarrow>
          let (e, n, w') = Cache_Set L S (negCache h) key None w
          in Return (h\<lparr>resolver := r, negCache := n\<rparr>, [HandleFailed L req], w')
      | (Inr mesg, r) \<Rightarrow>
          if length (Answer mesg) > 0 then
            let (e, c, w') = Cache_Set L S (cache h) key (Some mesg) w
            in Return (h\<lparr>resolver := r, cache := c\<rparr>, [mesg], w')
          else Return (h\<lparr>resolver := r\<rparr>, [mesg], w))"

definition do_cached ::
  "dns_lib \<Rightarrow> 'w cache_servers \<Rightarrow> lookup_fun \<Rightarrow> GODNSHandler \<Rightarrow> string \<Rightarrow> Msg \<Rightarrow> string \<Rightarrow> 'w \<Rightarrow> 'w reply" where
  "do_cached L S lookup h net req key w =
     (let (res, c, w1) = Cache_Get L S (cache h) key w; h1 = h\<lparr>cache := c\<rparr> in
      case res of
        Inr (Some mesg) \<Rightarrow> Return (h1, [mesg\<lparr>Id := Id req\<rparr>], w1)
      | Inr None \<Rightarrow> Panic ''nil pointer dereference''
      | Inl err \<Rightarrow>
          let (res', n, w2) = Cache_Get L S (negCache h1) key w1; h2 = h1\<lparr>negCache := n\<rparr> in
          (case res' of
             Inr _ \<Rightarrow> Return (h2, [HandleFailed L req], w2)
           | Inl err' \<Rightarrow> do_resolve L S lookup h2 net req key w2))"

definition Do ::
  "Settings \<Rightarrow> dns_lib \<Rightarrow> 'w cache_servers \<Rightarrow> string list \<Rightarrow> string list \<Rightarrow> lookup_fun \<Rightarrow>
     GODNSHandler \<Rightarrow> string \<Rightarrow> Msg \<Rightarrow> 'w \<Rightarrow> 'w reply" where
  "Do st L S ord_file ord_redis lookup h net req w =
     (if \<not> supported req then Return (h, [HandleFailed L req], w)
      else
        let q = hd (Msg_Question req); Q = cache_question L q in
        if IsBlocked (blocklist h) (UnFqdn L (q_Name q)) then Return (h, [blocked_reply L req], w)
        else
          case (if hosts_Enable (Hosts_settings st)
                then Hosts_Get ord_file ord_redis (hosts h) (qname Q) (getQuestionType q) else None) of
            Some ips \<Rightarrow> Return (h, [host_reply L st req q (qname Q) ips], w)
          | None \<Rightarrow> do_cached L S lookup h net req (KeyGen Q) w)"

definition DoTCP ::
  "Settings \<Rightarrow> dns_lib \<Rightarrow> 'w cache_servers \<Rightarrow> string list \<Rightarrow> string list \<Rightarrow> lookup_fun \<Rightarrow>
     GODNSHandler \<Rightarrow> Msg \<Rightarrow> 'w \<Rightarrow> 'w reply" where
  "DoTCP st L S ord_file ord_redis lookup h req w = Do st L S ord_file ord_redis lookup h ''tcp'' req w"

definition DoUDP ::
  "Settings \<Rightarrow> dns_lib \<Rightarrow> 'w cache_servers \<Rightarrow> string list \<Rightarrow> string list \<Rightarrow> lookup_fun \<Rightarrow>
     GODNSHandler \<Rightarrow> Msg \<Rightarrow> 'w \<Rightarrow> 'w reply" where
  "DoUDP st L S ord_file ord_redis lookup h req w = Do st L S ord_file ord_redis lookup h ''udp'' req w"

section \<open>The cache as the handler uses it\<close>

definition request_key :: "dns_lib \<Rightarrow> Msg \<Rightarrow> string" where
  "request_key L req = KeyGen (cache_question L (hd (Msg_Question req)))"

text \<open>The lookup of a query leaves the resolver in \<open>R\<close> and gives an answer that belongs to the key.\<close>

definition lookup_fits ::
  "(string \<Rightarrow> Msg \<Rightarrow> bool) \<Rightarrow> (Resolver \<Rightarrow> bool) \<Rightarrow> lookup_fun \<Rightarrow> string \<Rightarrow> Msg \<Rightarrow> string \<Rightarrow> Resolver \<Rightarrow> bool" where
  "lookup_fits P R lookup net req key r \<longleftrightarrow>
     R (snd (lookup net req r)) \<and> (\<forall>m. fst (lookup net req r) = Inr m \<longrightarrow> P key m)"

text \<open>The replies that come from the cache or the resolver.\<close>

definition proper :: "dns_lib \<Rightarrow> (string \<Rightarrow> Msg \<Rightarrow> bool) \<Rightarrow> Msg \<Rightarrow> string \<Rightarrow> Msg \<Rightarrow> bool" where
  "proper L P req key m \<longleftrightarrow>
     m = HandleFailed L req \<or> (\<exists>m'. P key m' \<and> (m = m' \<or> m = m'\<lparr>Id := Id req\<rparr>))"

text \<open>All replies: to a query that is not supported, to a blocked name, to a name of the hosts, and
  the others.\<close>

definition reply_ok :: "dns_lib \<Rightarrow> (string \<Rightarrow> Msg \<Rightarrow> bool) \<Rightarrow> Settings \<Rightarrow> GODNSHandler \<Rightarrow> Msg \<Rightarrow> Msg \<Rightarrow> bool" where
  "reply_ok L P st h req m \<longleftrightarrow>
     (if \<not> supported req then m = HandleFailed L req
      else let q = hd (Msg_Question req); name = UnFqdn L (q_Name q) in
        if IsBlocked (blocklist h) name then m = blocked_reply L req
        else (\<exists>ord ord' ips. hosts_Enable (Hosts_settings st) \<and>
                Hosts_Get ord ord' (hosts h) name (getQuestionType q) = Some ips \<and>
                m = host_reply L st req q name ips) \<or>
             proper L P req (request_key L req) m)"

text \<open>
  What the handler needs of its cache: a hit is a message, never \<open>nil\<close>, and belongs to the key. The
  predicate \<open>P\<close> says which messages belong to a key.
\<close>

locale answer_cache =
  fixes L :: dns_lib and S :: "'w cache_servers" and P :: "string \<Rightarrow> Msg \<Rightarrow> bool" and ok :: "Cache \<Rightarrow> bool"
  assumes get_ok: "ok c \<Longrightarrow> Cache_Get L S c key w = (res, c', w') \<Longrightarrow>
        ok c' \<and> (\<forall>x. res = Inr x \<longrightarrow> (\<exists>m. x = Some m \<and> P key m))"
    and set_ok: "ok c \<Longrightarrow> P key m \<Longrightarrow> Cache_Set L S c key (Some m) w = (e, c', w') \<Longrightarrow> ok c'"
begin

lemma do_resolve_reply:
  assumes "ok (cache h)" and "lookup_fits P R lookup net req key (resolver h)"
  shows "\<exists>h' m w'. do_resolve L S lookup h net req key w = Return (h', [m], w') \<and> ok (cache h') \<and>
           R (resolver h') \<and> proper L P req key m"
proof -
  obtain res r where l: "lookup net req (resolver h) = (res, r)" by (cases "lookup net req (resolver h)")
  with assms(2) have r: "R r" "\<And>m. res = Inr m \<Longrightarrow> P key m" by (simp_all add: lookup_fits_def)
  show ?thesis
  proof (cases res)
    case (Inl err)
    with l r assms(1) show ?thesis by (simp add: do_resolve_def proper_def split: prod.splits)
  next
    case (Inr m)
    obtain e c w' where set: "Cache_Set L S (cache h) key (Some m) w = (e, c, w')"
      by (cases "Cache_Set L S (cache h) key (Some m) w") auto
    have "P key m" using r Inr by simp
    with set_ok [OF assms(1) this set] show ?thesis
      using l r(1) Inr assms(1) by (auto simp: do_resolve_def proper_def set)
  qed
qed

lemma do_cached_reply:
  assumes "ok (cache h)" and "R (resolver h)" and "lookup_fits P R lookup net req key (resolver h)"
  shows "\<exists>h' m w'. do_cached L S lookup h net req key w = Return (h', [m], w') \<and> ok (cache h') \<and>
           R (resolver h') \<and> proper L P req key m"
proof -
  obtain res c w1 where g: "Cache_Get L S (cache h) key w = (res, c, w1)"
    by (cases "Cache_Get L S (cache h) key w") auto
  note c = get_ok [OF assms(1) g]
  show ?thesis
  proof (cases res)
    case (Inr x)
    with c obtain m where "x = Some m" "P key m" by blast
    with Inr c assms(2) show ?thesis by (auto simp: do_cached_def g proper_def)
  next
    case (Inl err)
    obtain res' n w2 where g': "Cache_Get L S (negCache h) key w1 = (res', n, w2)"
      by (cases "Cache_Get L S (negCache h) key w1") auto
    have "ok (cache (h\<lparr>cache := c, negCache := n\<rparr>))" using c by simp
    from do_resolve_reply [OF this, of R lookup net req key w2] assms(3)
    show ?thesis using Inl c assms(2) g g' by (cases res') (auto simp: do_cached_def proper_def)
  qed
qed

lemma Do_reply:
  assumes "ok (cache h)" and "R (resolver h)"
    and "lookup_fits P R lookup net req (request_key L req) (resolver h)"
  shows "\<exists>h' m w'. Do st L S ord ord' lookup h net req w = Return (h', [m], w') \<and> ok (cache h') \<and>
           R (resolver h') \<and> reply_ok L P st h req m"
proof -
  let ?q = "hd (Msg_Question req)"
  have key: "KeyGen (cache_question L ?q) = request_key L req" by (simp add: request_key_def)
  note cached = do_cached_reply [OF assms, of w]
  have name: "qname (cache_question L ?q) = UnFqdn L (q_Name ?q)" by (simp add: cache_question_def)
  show ?thesis
  proof (cases "supported req \<and> \<not> IsBlocked (blocklist h) (UnFqdn L (q_Name ?q))")
    case False
    with assms(1,2) show ?thesis by (auto simp: Do_def reply_ok_def Let_def)
  next
    case True
    show ?thesis
    proof (cases "if hosts_Enable (Hosts_settings st)
        then Hosts_Get ord ord' (hosts h) (UnFqdn L (q_Name ?q)) (getQuestionType ?q) else None")
      case None
      then have "Do st L S ord ord' lookup h net req w = do_cached L S lookup h net req (request_key L req) w"
        using True by (cases "hosts_Enable (Hosts_settings st)") (simp_all add: Do_def Let_def key name)
      with True cached show ?thesis by (auto simp: Let_def reply_ok_def)
    next
      case (Some ips)
      have "hosts_Enable (Hosts_settings st)"
        "Hosts_Get ord ord' (hosts h) (UnFqdn L (q_Name ?q)) (getQuestionType ?q) = Some ips"
        using Some by (simp_all split: if_splits)
      with True assms(1,2) show ?thesis by (auto simp: Do_def Let_def name reply_ok_def)
    qed
  qed
qed

end

section \<open>The caches that satisfy the contract\<close>

definition entries_ok :: "(string \<Rightarrow> Msg \<Rightarrow> bool) \<Rightarrow> Cache \<Rightarrow> bool" where
  "entries_ok P c \<longleftrightarrow>
     (\<exists>m. c = In_Memory m \<and>
        (\<forall>key mesg. fmlookup (Backend m) key = Some mesg \<longrightarrow> (\<exists>a. Mesg_Msg mesg = Some a \<and> P key a)))"

lemma entries_ok_Get:
  assumes "entries_ok P c" and "Cache_Get L S c key w = (res, c', w')"
  shows "entries_ok P c' \<and> (\<forall>x. res = Inr x \<longrightarrow> (\<exists>m. x = Some m \<and> P key m))"
proof -
  obtain m where m: "c = In_Memory m" "\<And>key mesg. fmlookup (Backend m) key = Some mesg \<Longrightarrow>
      \<exists>a. Mesg_Msg mesg = Some a \<and> P key a"
    using assms(1) by (auto simp: entries_ok_def)
  obtain now w1 where "Now S w = (now, w1)" by (cases "Now S w")
  with assms(2) m show ?thesis
    by (auto simp: Cache_Get_def MemoryCache_Get_def MemoryCache_Remove_def entries_ok_def
        split: option.splits if_splits)
qed

lemma entries_ok_Set:
  assumes "entries_ok P c" and "P key m" and "Cache_Set L S c key (Some m) w = (e, c', w')"
  shows "entries_ok P c'"
proof -
  obtain mc where mc: "c = In_Memory mc" "\<And>key mesg. fmlookup (Backend mc) key = Some mesg \<Longrightarrow>
      \<exists>a. Mesg_Msg mesg = Some a \<and> P key a"
    using assms(1) by (auto simp: entries_ok_def)
  obtain now w1 where "Now S w = (now, w1)" by (cases "Now S w")
  with assms(2,3) mc show ?thesis
    by (auto simp: Cache_Set_def MemoryCache_Set_def MemoryCache_store_def entries_ok_def split: if_splits)
qed

interpretation memory_backend: answer_cache L S P "entries_ok P" for L S P
  by unfold_locales (fact entries_ok_Get entries_ok_Set)+

text \<open>Memcached: a hit is what was unpacked, so never \<open>nil\<close>; what other clients have stored is not
  known, so every message may belong to a key.\<close>

definition in_memcached :: "Cache \<Rightarrow> bool" where
  "in_memcached c \<longleftrightarrow> (\<exists>m. c = In_Memcached m)"

interpretation memcached_backend: answer_cache L S "\<lambda>_ _. True" in_memcached for L S
  by unfold_locales
     (auto simp: in_memcached_def Cache_Get_def Cache_Set_def MemcachedCache_Get_def
        split: prod.splits sum.splits)

section \<open>Construction\<close>

lemma NewHandler_shape:
  assumes "NewHandler L fs resolv_conf redis st = Return (h, gs)"
  shows "NewResolver L fs resolv_conf (ResolvConfig st) = Return (Inr (resolver h))"
    and "cache h = fst (make_caches st)" and "negCache h = snd (make_caches st)"
    and "NewHosts (Hosts_settings st) = Return (hosts h)"
    and "NewBlocklist fs redis (blocklist_config st) = Return (blocklist h, gs)"
proof -
  obtain c n where cn: "make_caches st = (c, n)" by (cases "make_caches st")
  obtain res where res: "NewResolver L fs resolv_conf (ResolvConfig st) = Return res"
    using assms by (auto simp: NewHandler_def bind_outcome_Return_iff)
  then obtain r where r: "res = Inr r" using assms by (cases res) (auto simp: NewHandler_def)
  obtain hs where hs: "NewHosts (Hosts_settings st) = Return hs"
    using assms res r cn by (auto simp: NewHandler_def bind_outcome_Return_iff)
  obtain b gs' where b: "NewBlocklist fs redis (blocklist_config st) = Return (b, gs')"
    using assms res r cn hs by (auto simp: NewHandler_def bind_outcome_Return_iff)
  have "h = \<lparr>resolver = r, cache = c, negCache = n, hosts = hs, blocklist = b\<rparr>" "gs' = gs"
    using assms by (simp_all add: NewHandler_def res r cn hs b)
  with res r cn hs b show "NewResolver L fs resolv_conf (ResolvConfig st) = Return (Inr (resolver h))"
    "cache h = fst (make_caches st)" "negCache h = snd (make_caches st)"
    "NewHosts (Hosts_settings st) = Return (hosts h)"
    "NewBlocklist fs redis (blocklist_config st) = Return (blocklist h, gs)" by simp_all
qed

definition uses_memory :: "Settings \<Rightarrow> bool" where
  "uses_memory st \<longleftrightarrow> cache_Backend (Cache_settings st) \<notin> {''memcache'', ''redis''}"

lemma make_caches_memory: "uses_memory st \<Longrightarrow> make_caches st = memory_caches (Cache_settings st)"
  by (simp add: make_caches_def uses_memory_def Let_def)

lemma entries_ok_new: "uses_memory st \<Longrightarrow> entries_ok P (fst (make_caches st))"
  by (simp add: make_caches_memory memory_caches_def entries_ok_def new_MemoryCache_def)

section \<open>Runs of the handler\<close>

text \<open>What happens to a handler: queries, one after the other, and the rounds of the goroutines that
  refresh the hosts and the blocklist. A query meets an outcome that \<open>Lookup\<close> can have for the
  resolver of the handler, over the network \<open>may_answer\<close>.\<close>

definition real_lookup ::
  "dns_lib \<Rightarrow> 'v dns_env \<Rightarrow> network \<Rightarrow> lookup_fun \<Rightarrow> string \<Rightarrow> Msg \<Rightarrow> Resolver \<Rightarrow> bool" where
  "real_lookup L E may_answer lookup net req r \<longleftrightarrow>
     lookup_outcome L E may_answer net req r (fst (lookup net req r)) (snd (lookup net req r))"

inductive handler_reachable ::
  "dns_lib \<Rightarrow> 'v dns_env \<Rightarrow> network \<Rightarrow> 'w cache_servers \<Rightarrow> Settings \<Rightarrow> GODNSHandler \<Rightarrow> GODNSHandler \<Rightarrow> bool"
  for L E may_answer S st h0 where
  start: "handler_reachable L E may_answer S st h0 h0"
| hosts_round: "handler_reachable L E may_answer S st h0 h \<Longrightarrow>
    handler_reachable L E may_answer S st h0 (h\<lparr>hosts := Hosts_refresh_round fs hgetall (hosts h)\<rparr>)"
| blocklist_round: "handler_reachable L E may_answer S st h0 h \<Longrightarrow>
    handler_reachable L E may_answer S st h0 (h\<lparr>blocklist := refresher_tick fs redis g (blocklist h)\<rparr>)"
| query: "handler_reachable L E may_answer S st h0 h \<Longrightarrow>
    real_lookup L E may_answer lookup net req (resolver h) \<Longrightarrow>
    Do st L S ord ord' lookup h net req w = Return (h', out, w') \<Longrightarrow>
    handler_reachable L E may_answer S st h0 h'"

text \<open>The messages that may be served for a key: answers that a configured nameserver gave, now or
  before, to a request with the same key.\<close>

definition answered_by ::
  "dns_lib \<Rightarrow> network \<Rightarrow> ResolvSettings \<Rightarrow> string list \<Rightarrow> string \<Rightarrow> Msg \<Rightarrow> bool" where
  "answered_by L may_answer c nameservers key m \<longleftrightarrow>
     (\<exists>net req. request_key L req = key \<and> good_answer L may_answer net req nameservers c m)"

definition pool_of :: "Resolver \<Rightarrow> Resolver \<Rightarrow> bool" where
  "pool_of r0 r \<longleftrightarrow> (\<exists>es. r = fold pool_step es r0)"

lemma real_lookup_fits:
  assumes "NewResolver L fs resolv_conf c = Return (Inr r0)" and "pool_of r0 r"
    and "real_lookup L E may_answer lookup net req r"
  shows "lookup_fits (answered_by L may_answer c (configured r0)) (pool_of r0) lookup net req (request_key L req) r"
proof -
  obtain es where es: "r = fold pool_step es r0" using assms(2) by (auto simp: pool_of_def)
  with assms(3) have out: "lookup_outcome L E may_answer net req (fold pool_step es r0)
      (fst (lookup net req r)) (snd (lookup net req r))" by (simp add: real_lookup_def)
  from lookup_outcome_pool [OF out] have "pool_of r0 (snd (lookup net req r))" by (simp add: pool_of_def)
  moreover have "answered_by L may_answer c (configured r0) (request_key L req) m"
    if "fst (lookup net req r) = Inr m" for m
    using lookup_outcome_good [OF assms(1)] out that unfolding answered_by_def by metis
  ultimately show ?thesis by (simp add: lookup_fits_def)
qed

lemma handler_invariant:
  assumes "NewHandler L fs resolv_conf redis st = Return (h0, gs)" and "uses_memory st"
    and "handler_reachable L E may_answer S st h0 h"
  defines "P \<equiv> answered_by L may_answer (ResolvConfig st) (configured (resolver h0))"
  shows "entries_ok P (cache h) \<and> pool_of (resolver h0) (resolver h)"
  using assms(3)
proof induction
  case start
  have "pool_of (resolver h0) (resolver h0)" unfolding pool_of_def by (intro exI [of _ "[]"]) simp
  then show ?case using NewHandler_shape(2) [OF assms(1)] entries_ok_new [OF assms(2)] by simp
next
  case (query h lookup net req ord ord' w h' out w')
  have "lookup_fits P (pool_of (resolver h0)) lookup net req (request_key L req) (resolver h)"
    unfolding P_def using query real_lookup_fits [OF NewHandler_shape(1) [OF assms(1)]] by blast
  from memory_backend.Do_reply [OF _ _ this, where S = S and ord = ord and ord' = ord' and st = st and w = w]
  show ?case using query by auto
qed simp_all

section \<open>Steps of the cache\<close>

lemma Cache_Get_miss:
  assumes "\<not> MemoryCache_Exists m key"
  shows "\<exists>w'. Cache_Get L S (In_Memory m) key w = (Inl (KeyNotFound key), In_Memory m, w')"
  using assms
  by (cases "Now S w") (simp add: Cache_Get_def MemoryCache_Get_def MemoryCache_Exists_def)

text \<open>The clock stays between two times.\<close>

definition clock_within :: "'w cache_servers \<Rightarrow> time \<Rightarrow> time \<Rightarrow> bool" where
  "clock_within S t t' \<longleftrightarrow> (\<forall>w. t \<le> fst (Now S w) \<and> fst (Now S w) \<le> t')"

lemma Cache_Set_new:
  assumes "\<not> MemoryCache_Full m" and "clock_within S t t'"
  shows "\<exists>now w'. t \<le> now \<and> Cache_Set L S (In_Memory m) key msg w =
           (None, In_Memory (MemoryCache_store now m key msg), w')"
  using assms(1) assms(2) [unfolded clock_within_def, rule_format, of w]
  by (cases "Now S w") (auto simp: Cache_Set_def MemoryCache_Set_def)

lemma Cache_Get_hit:
  assumes "t \<le> now" and "clock_within S t (t + Expire m)"
  shows "\<exists>w'. Cache_Get L S (In_Memory (MemoryCache_store now m key msg)) key w =
           (Inr msg, In_Memory (MemoryCache_store now m key msg), w')"
  using assms(1) assms(2) [unfolded clock_within_def, rule_format, of w]
  by (cases "Now S w") (simp add: Cache_Get_def MemoryCache_Get_def MemoryCache_store_def)

lemma Do_reaches_cache:
  assumes "supported req" and "\<not> IsBlocked (blocklist h) (UnFqdn L (q_Name (hd (Msg_Question req))))"
    and "\<not> hosts_Enable (Hosts_settings st)"
  shows "Do st L S ord ord' lookup h net req w = do_cached L S lookup h net req (request_key L req) w"
  using assms by (simp add: Do_def Let_def request_key_def)

text \<open>A query that the blocklist and the hosts leave to the cache.\<close>

definition for_cache :: "dns_lib \<Rightarrow> Settings \<Rightarrow> GODNSHandler \<Rightarrow> Msg \<Rightarrow> bool" where
  "for_cache L st h req \<longleftrightarrow>
     supported req \<and> \<not> IsBlocked (blocklist h) (UnFqdn L (q_Name (hd (Msg_Question req)))) \<and>
     \<not> hosts_Enable (Hosts_settings st)"

lemma for_cache_Do:
  "for_cache L st h req \<Longrightarrow>
     Do st L S ord ord' lookup h net req w = do_cached L S lookup h net req (request_key L req) w"
  by (simp add: for_cache_def Do_reaches_cache)

lemma for_cache_frame [simp]:
  "for_cache L st (h\<lparr>resolver := r\<rparr>) req = for_cache L st h req"
  "for_cache L st (h\<lparr>cache := c\<rparr>) req = for_cache L st h req"
  "for_cache L st (h\<lparr>negCache := n\<rparr>) req = for_cache L st h req"
  by (simp_all add: for_cache_def)

lemma do_cached_miss:
  assumes "cache h = In_Memory m" and "negCache h = In_Memory n"
    and "\<not> MemoryCache_Exists m key" and "\<not> MemoryCache_Exists n key"
  shows "\<exists>w'. do_cached L S lookup h net req key w = do_resolve L S lookup h net req key w'"
proof -
  obtain w1 where w1: "Cache_Get L S (In_Memory m) key w = (Inl (KeyNotFound key), In_Memory m, w1)"
    using Cache_Get_miss [OF assms(3), where S = S] by blast
  obtain w2 where w2: "Cache_Get L S (In_Memory n) key w1 = (Inl (KeyNotFound key), In_Memory n, w2)"
    using Cache_Get_miss [OF assms(4), where S = S] by blast
  have same: "h\<lparr>cache := In_Memory m, negCache := In_Memory n\<rparr> = h" using assms(1,2) by (cases h) simp
  show ?thesis by (intro exI [of _ w2]) (simp add: do_cached_def assms(1,2) w1 w2 same)
qed

section \<open>Properties\<close>

text \<open>C1: Every query is answered exactly once, whatever has happened to a handler with memory caches since
  its construction, and never with a panic: a query of another type than A, AAAA, MX and CNAME with
  a failure, a blocked name with NXDOMAIN, a name of the hosts with its addresses, and any other
  query with a failure or with a message that a configured nameserver gave to a request with
  the same key and that is not a server failure.\<close>

theorem every_query_answered:
  assumes "NewHandler L fs resolv_conf redis st = Return (h0, gs)" and "uses_memory st"
    and "handler_reachable L E may_answer S st h0 h"
    and "real_lookup L E may_answer lookup net req (resolver h)"
  shows "\<exists>h' m w'. Do st L S ord ord' lookup h net req w = Return (h', [m], w') \<and>
    reply_ok L (answered_by L may_answer (ResolvConfig st) (configured (resolver h0))) st h req m"
proof -
  note inv = handler_invariant [OF assms(1-3)]
  have "lookup_fits (answered_by L may_answer (ResolvConfig st) (configured (resolver h0)))
      (pool_of (resolver h0)) lookup net req (request_key L req) (resolver h)"
    using real_lookup_fits [OF NewHandler_shape(1) [OF assms(1)] _ assms(4)] inv by blast
  from memory_backend.Do_reply [OF conjunct1 [OF inv] conjunct2 [OF inv] this, where S = S] show ?thesis by blast
qed

text \<open>C8: A blocked name gets NXDOMAIN: after any rounds of the goroutines that refresh the lists, a query
  for a name that the list of blocked domains had at the last round, and the list of allowed
  domains had not, is answered so, without a change of the caches or of the resolver.\<close>

theorem blocked_name_gets_nxdomain:
  assumes "NewHandler L fs resolv_conf redis st = Return (h, gs)" and "bl_Enable (Blocklist_settings st)"
    and "(fs', redis') = seen_by ts (fs, redis)" and "supported req"
    and "UnFqdn L (q_Name (hd (Msg_Question req))) \<in>
      black_domains fs' redis' (blocklist_config st) - white_domains fs' redis' (blocklist_config st)"
  shows "Do st L S ord ord' lookup (h\<lparr>blocklist := run_ticks ts (blocklist h)\<rparr>) net req w =
    Return (h\<lparr>blocklist := run_ticks ts (blocklist h)\<rparr>, [blocked_reply L req], w)"
proof -
  have "Enable (blocklist_config st)" using assms(2) by (simp add: blocklist_config_def Let_def)
  from set_up_run [OF NewBlocklist_set_up [OF NewHandler_shape(5) [OF assms(1)] this], of ts] assms(3)
  have "set_up fs' redis' (blocklist_config st) (run_ticks ts (blocklist h))" by (metis fst_conv snd_conv)
  with assms(5) have "IsBlocked (run_ticks ts (blocklist h)) (UnFqdn L (q_Name (hd (Msg_Question req))))"
    by (simp add: set_up_blocked)
  with assms(4) show ?thesis by (simp add: Do_def Let_def)
qed



text \<open>With Redis the two caches share their keys: a lookup that failed leaves the text \<open>C25: nil\<close> under the
  key, the next query with the same key finds it in the cache of the answers, and the handler
  dereferences the \<open>nil\<close> message. This happens to every handler built with that backend.\<close>

theorem redis_failure_then_panic:
  assumes "NewHandler L fs resolv_conf redis st = Return (h, gs)"
    and "cache_Backend (Cache_settings st) = ''redis''" and "redis_law S"
    and "for_cache L st h req" and "lookup net req (resolver h) = (Inl err, r)"
    and "redis_Get S (Redis st) (request_key L req) w = (RedisNil, w1)"
    and "redis_Get S (Redis st) (request_key L req) w1 = (RedisNil, w2)"
    and "redis_Set S (Redis st) (request_key L req) ''nil''
           (seconds (quot (cache_Expire (Cache_settings st)) 2)) w2 = (None, w3)"
    and "for_cache L st h req'" and "request_key L req' = request_key L req"
  shows "\<exists>h'. Do st L S ord1 ord2 lookup h net req w = Return (h', [HandleFailed L req], w3) \<and>
    Do st L S ord3 ord4 lookup' h' net' req' w3 = Panic ''nil pointer dereference''"
proof -
  let ?k = "request_key L req"
  let ?c = "NewRedisCache (Redis st) (cache_Expire (Cache_settings st))"
  let ?n = "NewRedisCache (Redis st) (quot (cache_Expire (Cache_settings st)) 2)"
  have caches: "cache h = In_Redis ?c" "negCache h = In_Redis ?n"
    using NewHandler_shape(2,3) [OF assms(1)] assms(2) by (simp_all add: make_caches_def Let_def)
  have miss: "RedisCache_Get L S ?c ?k w = (Inl (KeyNotFound ?k), w1)"
    "RedisCache_Get L S ?n ?k w1 = (Inl (KeyNotFound ?k), w2)"
    using assms(6,7) by (simp_all add: RedisCache_Get_def NewRedisCache_def)
  have store: "RedisCache_Set L S ?n ?k None w2 = (None, w3)"
    using assms(8) by (simp add: RedisCache_Set_def stored_form_def NewRedisCache_def)
  have "fst (RedisCache_Get L S ?n ?k w3) = Inr None"
    using redis.set_get_nil [OF assms(3) store] by (simp add: redis_decode_def)
  then obtain w4 where hit: "RedisCache_Get L S ?c ?k w3 = (Inr None, w4)"
    by (cases "RedisCache_Get L S ?c ?k w3") (simp add: RedisCache_Get_def NewRedisCache_def)
  let ?h = "h\<lparr>resolver := r, cache := In_Redis ?c, negCache := In_Redis ?n\<rparr>"
  have "Do st L S ord1 ord2 lookup h net req w = Return (?h, [HandleFailed L req], w3)"
    using assms(4,5) caches miss store
    by (simp add: for_cache_Do do_cached_def do_resolve_def Cache_Get_def Cache_Set_def)
  moreover have "Do st L S ord3 ord4 lookup' ?h net' req' w3 = Panic ''nil pointer dereference''"
    using assms(9,10) hit by (simp add: for_cache_Do do_cached_def Cache_Get_def)
  ultimately show ?thesis by blast
qed

text \<open>A configuration that enables the blocklist with the Redis backend can not start: the handler
  passes the settings as a struct where the backend expects a map, and no handler is ever made.\<close>

theorem redis_blocklist_never_starts:
  assumes "bl_Enable (Blocklist_settings st)"
    and "bl_Backend (Blocklist_settings st) = ''redis'' \<or> bl_RedisEnable (Blocklist_settings st)"
  shows "NewHandler L fs resolv_conf redis st \<noteq> Return (h, gs)"
proof
  assume "NewHandler L fs resolv_conf redis st = Return (h, gs)"
  from NewHandler_shape(5) [OF this] assms show False
    by (auto simp: blocklist_config_def Let_def NewBlocklist_def start_redis_def use_redis_def
        NewRedisBlocklist_def split: prod.splits)
qed

text \<open>The hosts answer queries for addresses only: an MX or CNAME query for a name of the hosts is
  answered from the cache or by the resolver, and the branch that makes an MX record is never
  taken.\<close>

theorem hosts_answer_only_addresses:
  assumes "supported req" and "\<not> IsBlocked (blocklist h) (UnFqdn L (q_Name (hd (Msg_Question req))))"
    and "q_Qtype (hd (Msg_Question req)) \<notin> {TypeA, TypeAAAA}"
  shows "Do st L S ord ord' lookup h net req w = do_cached L S lookup h net req (request_key L req) w"
proof -
  have "Hosts_Get ord ord' (hosts h) d (getQuestionType (hd (Msg_Question req))) = None" for d
    using assms(3) Hosts_Get_ips [of ord ord' "hosts h" d notIPQuery] family_ips_notIP [of notIPQuery]
    by (cases "Hosts_Get ord ord' (hosts h) d notIPQuery")
       (auto simp: getQuestionType_def notIPQuery_def IP4Query_def IP6Query_def)
  with assms(1,2) show ?thesis by (simp add: Do_def Let_def request_key_def)
qed

text \<open>An AAAA query for a host that has an IPv4 address in the file is answered with an A record.\<close>

theorem aaaa_query_gets_a_record:
  assumes "Msg_Question req = q # qs" and "q_Qtype q = TypeAAAA" and "hosts_Enable (Hosts_settings st)"
    and "\<not> IsBlocked (blocklist h) (UnFqdn L (q_Name q))"
    and "FileHosts_Get ord (fileHosts (hosts h)) (UnFqdn L (q_Name q)) = Some [sip]"
    and "ParseIP sip = Some ip" and "To4 ip = Some ip4"
  shows "\<exists>m. Do st L S ord ord' lookup h net req w = Return (h, [m], w) \<and>
    Answer m = [RR_A \<lparr>hdr_Name = Fqdn L (UnFqdn L (q_Name q)), hdr_Rrtype = TypeA, hdr_Class = ClassINET,
      hdr_Ttl = hosts_TTL (Hosts_settings st)\<rparr> ip]"
proof -
  have "Hosts_Get ord ord' (hosts h) (UnFqdn L (q_Name q)) (getQuestionType q) = Some [ip]"
    using assms(2,5,6) by (simp add: getQuestionType_def TypeA_def TypeAAAA_def Hosts_Get_file family_ips_IP6
        List.map_filter_simps del: family_ips.simps)
  with assms show ?thesis
    by (simp add: Do_def supported_def Let_def cache_question_def host_reply_def TypeAAAA_def TypeMX_def)
qed

section \<open>Witnesses\<close>

text \<open>A configuration with a given backend of the cache, the hosts disabled and a list of one blocked
  domain.\<close>

definition example_settings :: "string \<Rightarrow> Settings" where
  "example_settings backend =
     \<lparr>Version = ''0.1'', Debug = False, Server_settings = \<lparr>Host = ''127.0.0.1'', Port = 53\<rparr>,
      ResolvConfig = plain_settings, Redis = \<lparr>Addr = ''127.0.0.1:6379'', Password = [], DB = 0\<rparr>,
      Memcache = \<lparr>Servers = []\<rparr>, Log_settings = \<lparr>log_Stdout = True, log_File = [], log_Level = ''INFO''\<rparr>,
      Cache_settings = \<lparr>cache_Backend = backend, cache_Expire = 600, cache_Maxcount = 0\<rparr>,
      Hosts_settings = \<lparr>hosts_Enable = False, HostsFile = ''h'', hosts_RedisEnable = False,
        hosts_RedisKey = [], hosts_TTL = 600, hosts_RefreshInterval = 5\<rparr>,
      Blocklist_settings = \<lparr>bl_Enable = True, bl_Backend = ''file'', bl_File = ''block'',
        bl_WhitelistFile = ''white'', bl_RefreshInterval = 300, bl_RedisEnable = False, bl_RedisKey = [],
        bl_RedisWhitelistKey = [], bl_TTL = 0\<rparr>\<rparr>"

lemma example_settings_simps:
  "ResolvConfig (example_settings b) = plain_settings" "Redis (example_settings b) = \<lparr>Addr = ''127.0.0.1:6379'',
     Password = [], DB = 0\<rparr>" "bl_Enable (Blocklist_settings (example_settings b))"
  "\<not> hosts_Enable (Hosts_settings (example_settings b))"
  "Cache_settings (example_settings b) = \<lparr>cache_Backend = b, cache_Expire = 600, cache_Maxcount = 0\<rparr>"
  "blocklist_config (example_settings b) = example_config"
  by (simp_all add: example_settings_def blocklist_config_def example_config_def)

lemma example_NewHosts: "\<exists>hs. NewHosts (Hosts_settings (example_settings b)) = Return hs"
  by (simp add: example_settings_def NewHosts_def int64_id)

lemma example_NewHandler:
  "\<exists>h gs. NewHandler L example_fs sample_conf (\<lambda>_. None) (example_settings b) = Return (h, gs) \<and>
     resolver h = plain_resolver \<and> (\<forall>d. IsBlocked (blocklist h) d \<longleftrightarrow> d = ''ads.com'')"
proof -
  obtain hs where hs: "NewHosts (Hosts_settings (example_settings b)) = Return hs" using example_NewHosts by blast
  obtain bl gs where bl: "NewBlocklist example_fs (\<lambda>_. None) example_config = Return (bl, gs)"
    using NewBlocklist_no_redis [of example_config example_fs "\<lambda>_. None"]
    by (auto simp: example_config_def use_redis_def)
  have "IsBlocked bl d \<longleftrightarrow> d = ''ads.com''" for d
    using set_up_blocked [OF NewBlocklist_set_up [OF bl]] by simp
  then show ?thesis
    using hs bl by (simp add: NewHandler_def plain_NewResolver example_settings_simps split: prod.splits)
qed

definition query_for :: "string \<Rightarrow> 16 word \<Rightarrow> Msg" where
  "query_for name t = new_Msg\<lparr>Id := 7, Msg_Question := [\<lparr>q_Name = name, q_Qtype = t, q_Qclass = ClassINET\<rparr>]\<rparr>"

lemma query_simps:
  "UnFqdn sample_lib ''a.b.'' = ''a.b''" "UnFqdn sample_lib ''ads.com.'' = ''ads.com''"
  "UnFqdn sample_lib ''nas.'' = ''nas''"
  "Msg_Question (query_for name t) = [\<lparr>q_Name = name, q_Qtype = t, q_Qclass = ClassINET\<rparr>]"
  "supported (query_for name TypeA)" "supported (query_for name TypeAAAA)" "supported (query_for name TypeMX)"
  by (simp_all add: UnFqdn_def sample_lib_simps plain_IsFqdn_def query_for_def supported_def)

theorem every_query_answered_witness:
  "\<exists>h0 gs lookup h' m w'. NewHandler sample_lib example_fs sample_conf (\<lambda>_. None) (example_settings ''memory'') =
       Return (h0, gs) \<and>
     Do (example_settings ''memory'') sample_lib kv_servers [] [] lookup h0 ''tcp'' sample_query Map.empty =
       Return (h', [m], w')"
proof -
  obtain h0 gs where h0: "NewHandler sample_lib example_fs sample_conf (\<lambda>_. None) (example_settings ''memory'') =
      Return (h0, gs)" "resolver h0 = plain_resolver" using example_NewHandler by blast
  obtain r where r: "lookup_outcome sample_lib sample_env echo ''tcp'' sample_query plain_resolver (Inr sample_query) r"
    using plain_lookup by blast
  have "uses_memory (example_settings ''memory'')" by (simp add: uses_memory_def example_settings_simps)
  moreover have "real_lookup sample_lib sample_env echo (\<lambda>_ _ _. (Inr sample_query, r)) ''tcp'' sample_query (resolver h0)"
    using r h0(2) by (simp add: real_lookup_def)
  ultimately show ?thesis
    using every_query_answered [OF h0(1) _ handler_reachable.start, where S = kv_servers] h0(1) by blast
qed

theorem blocked_name_gets_nxdomain_witness:
  "\<exists>h gs. NewHandler sample_lib example_fs sample_conf (\<lambda>_. None) (example_settings ''memory'') = Return (h, gs) \<and>
     Do (example_settings ''memory'') sample_lib kv_servers [] [] (\<lambda>_ _ r. (Inr new_Msg, r)) h ''tcp'' (query_for ''ads.com.'' TypeA) Map.empty =
       Return (h, [blocked_reply sample_lib (query_for ''ads.com.'' TypeA)], Map.empty)"
proof -
  obtain h gs where h: "NewHandler sample_lib example_fs sample_conf (\<lambda>_. None) (example_settings ''memory'') =
      Return (h, gs)" using example_NewHandler by blast
  have "Do (example_settings ''memory'') sample_lib kv_servers [] [] (\<lambda>_ _ r. (Inr new_Msg, r)) (h\<lparr>blocklist := run_ticks [] (blocklist h)\<rparr>)
      ''tcp'' (query_for ''ads.com.'' TypeA) Map.empty =
    Return (h\<lparr>blocklist := run_ticks [] (blocklist h)\<rparr>, [blocked_reply sample_lib (query_for ''ads.com.'' TypeA)], Map.empty)"
    by (rule blocked_name_gets_nxdomain [OF h, of example_fs "\<lambda>_. None"])
       (simp_all add: example_settings_simps query_simps)
  with h show ?thesis by simp
qed

lemma example_memory:
  assumes "NewHandler L example_fs sample_conf (\<lambda>_. None) (example_settings ''memory'') = Return (h, gs)"
  shows "cache h = In_Memory (new_MemoryCache (seconds 600) 0)"
    and "negCache h = In_Memory (new_MemoryCache (quot (seconds 600) 2) 0)"
  using NewHandler_shape(2,3) [OF assms] by (simp_all add: make_caches_def memory_caches_def example_settings_simps)

lemma example_cache_simps:
  "\<not> MemoryCache_Exists (new_MemoryCache e 0) key" "\<not> MemoryCache_Full (new_MemoryCache e 0)"
  "Expire (new_MemoryCache e n) = e"
  by (simp_all add: MemoryCache_Exists_def MemoryCache_Full_def new_MemoryCache_def)

lemma seconds_600: "seconds 600 = 600 * Second"
  unfolding seconds_def by (rule int64_id) simp_all

lemma example_clock:
  "clock_within kv_servers 0 (0 + seconds 600)" "clock_within kv_servers 0 (0 + quot (seconds 600) 2)"
  by (simp_all add: clock_within_def kv_servers_def seconds_600 quot_def)

text \<open>The same question under two ids.\<close>

lemma sample_for_cache:
  assumes "\<forall>d. IsBlocked (blocklist h) d \<longleftrightarrow> d = ''ads.com''"
  shows "for_cache sample_lib (example_settings b) h (query_for ''a.b.'' TypeA)"
    and "for_cache sample_lib (example_settings b) h ((query_for ''a.b.'' TypeA)\<lparr>Id := 8\<rparr>)"
    and "request_key sample_lib ((query_for ''a.b.'' TypeA)\<lparr>Id := 8\<rparr>) = request_key sample_lib (query_for ''a.b.'' TypeA)"
  using assms query_simps(5)
  by (simp_all add: for_cache_def example_settings_simps query_simps request_key_def supported_def)

definition sample_answer :: Msg where
  "sample_answer = (query_for ''a.b.'' TypeA)\<lparr>Answer := [RR_A \<lparr>hdr_Name = ''a.b.'', hdr_Rrtype = TypeA,
     hdr_Class = ClassINET, hdr_Ttl = 60\<rparr> [10, 0, 0, 9]]\<rparr>"



lemma kv_steps:
  "redis_Get kv_servers rs key Map.empty = (RedisNil, Map.empty)"
  "redis_Set kv_servers rs key v d Map.empty = (None, [key \<mapsto> v])"
  by (simp_all add: kv_servers_def)

theorem redis_failure_then_panic_witness:
  "\<exists>h w h'. Do (example_settings ''redis'') sample_lib kv_servers [] [] (\<lambda>_ _ r. (Inl (ResolvError [] [] []), r)) h
       ''tcp'' (query_for ''a.b.'' TypeA) Map.empty =
         Return (h', [HandleFailed sample_lib (query_for ''a.b.'' TypeA)], w) \<and>
     Do (example_settings ''redis'') sample_lib kv_servers [] [] (\<lambda>_ _ r. (Inr new_Msg, r)) h'
       ''tcp'' (query_for ''a.b.'' TypeA) w = Panic ''nil pointer dereference''"
proof -
  obtain h gs where h: "NewHandler sample_lib example_fs sample_conf (\<lambda>_. None) (example_settings ''redis'') =
      Return (h, gs)" and b: "\<forall>d. IsBlocked (blocklist h) d \<longleftrightarrow> d = ''ads.com''"
    using example_NewHandler by blast
  show ?thesis
    by (rule exI [of _ h], rule exI,
        rule redis_failure_then_panic [OF h _ kv_laws(1) sample_for_cache(1) [OF b] _ kv_steps(1) kv_steps(1) kv_steps(2)
          sample_for_cache(1) [OF b]])
       (simp_all add: example_settings_simps)
qed

theorem redis_blocklist_never_starts_witness:
  "NewHandler sample_lib example_fs sample_conf (\<lambda>_. None) ((example_settings ''memory'')\<lparr>Blocklist_settings :=
     (Blocklist_settings (example_settings ''memory''))\<lparr>bl_Backend := ''redis''\<rparr>\<rparr>) \<noteq>
     Return (\<lparr>resolver = plain_resolver, cache = In_Redis sample_redis, negCache = In_Redis sample_redis,
       hosts = nas_hosts, blocklist = empty_block\<rparr>, [])"
  by (rule redis_blocklist_never_starts) (simp_all add: example_settings_simps)

definition nas_handler :: GODNSHandler where
  "nas_handler = \<lparr>resolver = plain_resolver, cache = In_Memory (new_MemoryCache (600 * Second) 0),
     negCache = In_Memory (new_MemoryCache (300 * Second) 0), hosts = nas_hosts, blocklist = empty_block\<rparr>"

definition nas_settings :: Settings where
  "nas_settings = (example_settings ''memory'')\<lparr>Hosts_settings :=
     (Hosts_settings (example_settings ''memory''))\<lparr>hosts_Enable := True\<rparr>\<rparr>"

lemma nas_simps:
  "hosts_Enable (Hosts_settings nas_settings)" "\<not> IsBlocked (blocklist nas_handler) d" "hosts nas_handler = nas_hosts"
  by (simp_all add: nas_settings_def nas_handler_def IsBlocked_def IsAllowed_def empty_block_def)

theorem hosts_answer_only_addresses_witness:
  "Do nas_settings sample_lib kv_servers [] [] (\<lambda>_ _ r. (Inr new_Msg, r)) nas_handler ''tcp'' (query_for ''nas.'' TypeMX)
     Map.empty = do_cached sample_lib kv_servers (\<lambda>_ _ r. (Inr new_Msg, r)) nas_handler ''tcp'' (query_for ''nas.'' TypeMX)
       (request_key sample_lib (query_for ''nas.'' TypeMX)) Map.empty"
  using hosts_answer_only_addresses [of "query_for ''nas.'' TypeMX" nas_handler sample_lib nas_settings kv_servers]
  by (simp add: nas_simps query_simps) (simp add: Type_defs)

theorem aaaa_query_gets_a_record_witness:
  "\<exists>m. Do nas_settings sample_lib kv_servers [] [] (\<lambda>_ _ r. (Inr new_Msg, r)) nas_handler ''tcp''
       (query_for ''nas.'' TypeAAAA) Map.empty = Return (nas_handler, [m], Map.empty) \<and>
     map (hdr_Rrtype \<circ> Header) (Answer m) = [TypeA]"
proof -
  have "\<exists>m. Do nas_settings sample_lib kv_servers [] [] (\<lambda>_ _ r. (Inr new_Msg, r)) nas_handler ''tcp''
       (query_for ''nas.'' TypeAAAA) Map.empty = Return (nas_handler, [m], Map.empty) \<and>
     Answer m = [RR_A \<lparr>hdr_Name = Fqdn sample_lib (UnFqdn sample_lib (q_Name \<lparr>q_Name = ''nas.'', q_Qtype = TypeAAAA,
        q_Qclass = ClassINET\<rparr>)), hdr_Rrtype = TypeA, hdr_Class = ClassINET,
        hdr_Ttl = hosts_TTL (Hosts_settings nas_settings)\<rparr> [0, 0, 0, 0, 0, 0, 0, 0, 0, 0, 255, 255, 10, 0, 0, 1]]"
    by (rule aaaa_query_gets_a_record [OF _ _ _ _ _ ParseIP_nas To4_nas])
       (simp_all add: nas_simps query_simps nas_lookup)
  then show ?thesis by auto
qed

end
