(* ===== verification/Query_Threads.thy ===== *)
theory Query_Threads
  imports Handler
begin

text \<open>
  Queries that overlap. The server runs \<open>Do\<close> of \<open>handler.go\<close> in a goroutine per query, over one shared
  handler. The atomic steps are the calls that \<open>Do\<close> makes on the shared parts: the blocklist, the hosts,
  the two caches, the lookup and the two writes to the caches; in between, other queries and the
  goroutines that refresh the hosts and the blocklist go on.

  A lookup chooses its nameservers from the resolver as it finds it, and takes its time; its
  updates of the round-trip times can fall anywhere, so they are steps of their own. A task whose
  cache gives a \<open>nil\<close> message crashes the program (\<open>panicked\<close>).
\<close>

section \<open>The model\<close>

datatype stage =
    Arrived | Asking_hosts | Asking_cache | Asking_negCache | Resolving Resolver
  | Storing Msg | Storing_failure | Finished

record task =
  task_net :: string
  task_req :: Msg
  task_stage :: stage
  written :: "Msg list"

record 'w handling =
  handler :: GODNSHandler
  tasks :: "task list"
  world :: 'w
  panicked :: bool

definition new_task :: "string \<Rightarrow> Msg \<Rightarrow> task" where
  "new_task net req = \<lparr>task_net = net, task_req = req, task_stage = Arrived, written = []\<rparr>"

text \<open>The task goes to its next stage, after it has written a list of messages.\<close>

definition proceed :: "nat \<Rightarrow> Msg list \<Rightarrow> stage \<Rightarrow> 'w handling \<Rightarrow> 'w handling" where
  "proceed i out g s =
     s\<lparr>tasks := (tasks s)[i := (tasks s ! i)\<lparr>task_stage := g, written := written (tasks s ! i) @ out\<rparr>]\<rparr>"

definition at_stage :: "'w handling \<Rightarrow> nat \<Rightarrow> stage \<Rightarrow> bool" where
  "at_stage s i g \<longleftrightarrow> i < length (tasks s) \<and> task_stage (tasks s ! i) = g"

abbreviation req_of :: "'w handling \<Rightarrow> nat \<Rightarrow> Msg" where
  "req_of s i \<equiv> task_req (tasks s ! i)"

abbreviation net_of :: "'w handling \<Rightarrow> nat \<Rightarrow> string" where
  "net_of s i \<equiv> task_net (tasks s ! i)"

abbreviation name_of :: "dns_lib \<Rightarrow> Msg \<Rightarrow> string" where
  "name_of L req \<equiv> UnFqdn L (q_Name (hd (Msg_Question req)))"

inductive handle_step ::
  "Settings \<Rightarrow> dns_lib \<Rightarrow> 'w cache_servers \<Rightarrow> 'v dns_env \<Rightarrow> network \<Rightarrow> 'w handling \<Rightarrow> 'w handling \<Rightarrow> bool"
  for st L S E may_answer where
  arrive: "handle_step st L S E may_answer s (s\<lparr>tasks := tasks s @ [new_task net req]\<rparr>)"
| unsupported: "at_stage s i Arrived \<Longrightarrow> \<not> supported (req_of s i) \<Longrightarrow>
    handle_step st L S E may_answer s (proceed i [HandleFailed L (req_of s i)] Finished s)"
| is_blocked: "at_stage s i Arrived \<Longrightarrow> supported (req_of s i) \<Longrightarrow>
    IsBlocked (blocklist (handler s)) (name_of L (req_of s i)) \<Longrightarrow>
    handle_step st L S E may_answer s (proceed i [blocked_reply L (req_of s i)] Finished s)"
| not_blocked: "at_stage s i Arrived \<Longrightarrow> supported (req_of s i) \<Longrightarrow>
    \<not> IsBlocked (blocklist (handler s)) (name_of L (req_of s i)) \<Longrightarrow>
    handle_step st L S E may_answer s
      (proceed i [] (if hosts_Enable (Hosts_settings st) then Asking_hosts else Asking_cache) s)"
| host_found: "at_stage s i Asking_hosts \<Longrightarrow>
    Hosts_Get ord ord' (hosts (handler s)) (name_of L (req_of s i))
      (getQuestionType (hd (Msg_Question (req_of s i)))) = Some ips \<Longrightarrow>
    handle_step st L S E may_answer s (proceed i
      [host_reply L st (req_of s i) (hd (Msg_Question (req_of s i))) (name_of L (req_of s i)) ips] Finished s)"
| no_host: "at_stage s i Asking_hosts \<Longrightarrow>
    Hosts_Get ord ord' (hosts (handler s)) (name_of L (req_of s i))
      (getQuestionType (hd (Msg_Question (req_of s i)))) = None \<Longrightarrow>
    handle_step st L S E may_answer s (proceed i [] Asking_cache s)"
| cache_hit: "at_stage s i Asking_cache \<Longrightarrow>
    Cache_Get L S (cache (handler s)) (request_key L (req_of s i)) (world s) = (Inr (Some m), c, w) \<Longrightarrow>
    handle_step st L S E may_answer s ((proceed i [m\<lparr>Id := Id (req_of s i)\<rparr>] Finished s)
      \<lparr>handler := (handler s)\<lparr>cache := c\<rparr>, world := w\<rparr>)"
| cache_nil: "at_stage s i Asking_cache \<Longrightarrow>
    Cache_Get L S (cache (handler s)) (request_key L (req_of s i)) (world s) = (Inr None, c, w) \<Longrightarrow>
    handle_step st L S E may_answer s (s\<lparr>panicked := True\<rparr>)"
| cache_miss: "at_stage s i Asking_cache \<Longrightarrow>
    Cache_Get L S (cache (handler s)) (request_key L (req_of s i)) (world s) = (Inl err, c, w) \<Longrightarrow>
    handle_step st L S E may_answer s ((proceed i [] Asking_negCache s)
      \<lparr>handler := (handler s)\<lparr>cache := c\<rparr>, world := w\<rparr>)"
| neg_hit: "at_stage s i Asking_negCache \<Longrightarrow>
    Cache_Get L S (negCache (handler s)) (request_key L (req_of s i)) (world s) = (Inr x, n, w) \<Longrightarrow>
    handle_step st L S E may_answer s ((proceed i [HandleFailed L (req_of s i)] Finished s)
      \<lparr>handler := (handler s)\<lparr>negCache := n\<rparr>, world := w\<rparr>)"
| neg_miss: "at_stage s i Asking_negCache \<Longrightarrow>
    Cache_Get L S (negCache (handler s)) (request_key L (req_of s i)) (world s) = (Inl err, n, w) \<Longrightarrow>
    handle_step st L S E may_answer s ((proceed i [] (Resolving (resolver (handler s))) s)
      \<lparr>handler := (handler s)\<lparr>negCache := n\<rparr>, world := w\<rparr>)"
| resolved: "at_stage s i (Resolving r) \<Longrightarrow>
    lookup_outcome L E may_answer (net_of s i) (req_of s i) r (Inr m) r' \<Longrightarrow>
    handle_step st L S E may_answer s (proceed i [m] (if Answer m \<noteq> [] then Storing m else Finished) s)"
| failed: "at_stage s i (Resolving r) \<Longrightarrow>
    lookup_outcome L E may_answer (net_of s i) (req_of s i) r (Inl err) r' \<Longrightarrow>
    handle_step st L S E may_answer s (proceed i [HandleFailed L (req_of s i)] Storing_failure s)"
| measured: "handle_step st L S E may_answer s
      (s\<lparr>handler := (handler s)\<lparr>resolver := pool_step e (resolver (handler s))\<rparr>\<rparr>)"
| store: "at_stage s i (Storing m) \<Longrightarrow>
    Cache_Set L S (cache (handler s)) (request_key L (req_of s i)) (Some m) (world s) = (err, c, w) \<Longrightarrow>
    handle_step st L S E may_answer s ((proceed i [] Finished s)
      \<lparr>handler := (handler s)\<lparr>cache := c\<rparr>, world := w\<rparr>)"
| store_failure: "at_stage s i Storing_failure \<Longrightarrow>
    Cache_Set L S (negCache (handler s)) (request_key L (req_of s i)) None (world s) = (err, n, w) \<Longrightarrow>
    handle_step st L S E may_answer s ((proceed i [] Finished s)
      \<lparr>handler := (handler s)\<lparr>negCache := n\<rparr>, world := w\<rparr>)"
| hosts_round: "handle_step st L S E may_answer s
      (s\<lparr>handler := (handler s)\<lparr>hosts := Hosts_refresh_round fs hgetall (hosts (handler s))\<rparr>\<rparr>)"
| blocklist_round: "handle_step st L S E may_answer s
      (s\<lparr>handler := (handler s)\<lparr>blocklist := refresher_tick fs redis g (blocklist (handler s))\<rparr>\<rparr>)"

inductive_cases handle_stepE: "handle_step st L S E may_answer s t"

definition start_handling :: "GODNSHandler \<Rightarrow> 'w \<Rightarrow> 'w handling" where
  "start_handling h w = \<lparr>handler = h, tasks = [], world = w, panicked = False\<rparr>"

definition handling_reachable ::
  "Settings \<Rightarrow> dns_lib \<Rightarrow> 'w cache_servers \<Rightarrow> 'v dns_env \<Rightarrow> network \<Rightarrow> GODNSHandler \<Rightarrow> 'w \<Rightarrow> 'w handling \<Rightarrow> bool" where
  "handling_reachable st L S E may_answer h w s \<longleftrightarrow> (handle_step st L S E may_answer)\<^sup>*\<^sup>* (start_handling h w) s"

section \<open>Invariant\<close>

text \<open>The messages that a query may get.\<close>

definition reply_kind :: "dns_lib \<Rightarrow> (string \<Rightarrow> Msg \<Rightarrow> bool) \<Rightarrow> Settings \<Rightarrow> Msg \<Rightarrow> Msg \<Rightarrow> bool" where
  "reply_kind L P st req m \<longleftrightarrow>
     m = blocked_reply L req \<and> supported req \<or>
     (\<exists>ips. m = host_reply L st req (hd (Msg_Question req)) (name_of L req) ips \<and> hosts_Enable (Hosts_settings st)) \<or>
     proper L P req (request_key L req) m"

fun task_ok :: "dns_lib \<Rightarrow> (string \<Rightarrow> Msg \<Rightarrow> bool) \<Rightarrow> (Resolver \<Rightarrow> bool) \<Rightarrow> Settings \<Rightarrow> Msg \<Rightarrow> Msg list \<Rightarrow> stage \<Rightarrow> bool" where
  "task_ok L P R st req out Finished \<longleftrightarrow> (\<exists>m. out = [m] \<and> reply_kind L P st req m)"
| "task_ok L P R st req out (Storing m) \<longleftrightarrow> out = [m] \<and> P (request_key L req) m"
| "task_ok L P R st req out Storing_failure \<longleftrightarrow> out = [HandleFailed L req]"
| "task_ok L P R st req out (Resolving r) \<longleftrightarrow> out = [] \<and> R r"
| "task_ok L P R st req out Asking_hosts \<longleftrightarrow> out = [] \<and> hosts_Enable (Hosts_settings st)"
| "task_ok L P R st req out _ \<longleftrightarrow> out = []"

definition tasks_ok :: "dns_lib \<Rightarrow> (string \<Rightarrow> Msg \<Rightarrow> bool) \<Rightarrow> (Resolver \<Rightarrow> bool) \<Rightarrow> Settings \<Rightarrow> 'w handling \<Rightarrow> bool" where
  "tasks_ok L P R st s \<longleftrightarrow>
     (\<forall>t \<in> set (tasks s). task_ok L P R st (task_req t) (written t) (task_stage t))"

lemma at_stage_ok:
  "tasks_ok L P R st s \<Longrightarrow> at_stage s i g \<Longrightarrow> task_ok L P R st (req_of s i) (written (tasks s ! i)) g"
  by (auto simp: tasks_ok_def at_stage_def)

lemma tasks_ok_proceed:
  assumes "tasks_ok L P R st s" and "task_ok L P R st (req_of s i) (written (tasks s ! i) @ out) g"
  shows "tasks_ok L P R st (proceed i out g s)"
  using assms by (auto simp: tasks_ok_def proceed_def dest!: set_update_subset_insert [THEN subsetD])

lemma tasks_ok_frame [simp]:
  "tasks_ok L P R st (s\<lparr>handler := h\<rparr>) = tasks_ok L P R st s"
  "tasks_ok L P R st (s\<lparr>world := w\<rparr>) = tasks_ok L P R st s"
  "tasks_ok L P R st (s\<lparr>panicked := b\<rparr>) = tasks_ok L P R st s"
  by (simp_all add: tasks_ok_def)

lemma proceed_frame [simp]:
  "handler (proceed i out g s) = handler s" "world (proceed i out g s) = world s"
  "panicked (proceed i out g s) = panicked s"
  by (simp_all add: proceed_def)

definition handling_ok ::
  "(Cache \<Rightarrow> bool) \<Rightarrow> dns_lib \<Rightarrow> (string \<Rightarrow> Msg \<Rightarrow> bool) \<Rightarrow> (Resolver \<Rightarrow> bool) \<Rightarrow> Settings \<Rightarrow> 'w handling \<Rightarrow> bool" where
  "handling_ok ok L P R st s \<longleftrightarrow>
     tasks_ok L P R st s \<and> ok (cache (handler s)) \<and> R (resolver (handler s)) \<and> \<not> panicked s"

text \<open>What the lookups have to keep, for the resolvers in \<open>R\<close>.\<close>

definition lookups_fit ::
  "dns_lib \<Rightarrow> 'v dns_env \<Rightarrow> network \<Rightarrow> (string \<Rightarrow> Msg \<Rightarrow> bool) \<Rightarrow> (Resolver \<Rightarrow> bool) \<Rightarrow> bool" where
  "lookups_fit L E may_answer P R \<longleftrightarrow>
     (\<forall>net req r m r'. R r \<longrightarrow> lookup_outcome L E may_answer net req r (Inr m) r' \<longrightarrow> P (request_key L req) m) \<and>
     (\<forall>e r. R r \<longrightarrow> R (pool_step e r))"

lemma reply_kinds:
  "reply_kind L P st req (HandleFailed L req)"
  "supported req \<Longrightarrow> reply_kind L P st req (blocked_reply L req)"
  "hosts_Enable (Hosts_settings st) \<Longrightarrow>
     reply_kind L P st req (host_reply L st req (hd (Msg_Question req)) (name_of L req) ips)"
  "P (request_key L req) m \<Longrightarrow> reply_kind L P st req (m\<lparr>Id := Id req\<rparr>)"
  "P (request_key L req) m \<Longrightarrow> reply_kind L P st req m"
  by (auto simp: reply_kind_def proper_def)

text \<open>The number of steps a task still needs, at most.\<close>

fun stage_rank :: "stage \<Rightarrow> nat" where
  "stage_rank Arrived = 6"
| "stage_rank Asking_hosts = 5"
| "stage_rank Asking_cache = 4"
| "stage_rank Asking_negCache = 3"
| "stage_rank (Resolving r) = 2"
| "stage_rank (Storing m) = 1"
| "stage_rank Storing_failure = 1"
| "stage_rank Finished = 0"

definition nearer :: "nat \<Rightarrow> 'w handling \<Rightarrow> 'w handling \<Rightarrow> bool" where
  "nearer i s t \<longleftrightarrow> stage_rank (task_stage (tasks t ! i)) < stage_rank (task_stage (tasks s ! i))"

lemma nearer_proceed:
  "at_stage s i g \<Longrightarrow> stage_rank g' < stage_rank g \<Longrightarrow> nearer i s (proceed i out g' s)"
  "at_stage s i g \<Longrightarrow> stage_rank g' < stage_rank g \<Longrightarrow>
     nearer i s ((proceed i out g' s)\<lparr>handler := h, world := w\<rparr>)"
  by (simp_all add: nearer_def proceed_def at_stage_def)

text \<open>A task can go on: there is a step that brings it nearer to its end.\<close>

definition can_go ::
  "Settings \<Rightarrow> dns_lib \<Rightarrow> 'w cache_servers \<Rightarrow> 'v dns_env \<Rightarrow> network \<Rightarrow> nat \<Rightarrow> 'w handling \<Rightarrow> bool" where
  "can_go st L S E may_answer i s \<longleftrightarrow> (\<exists>t. handle_step st L S E may_answer s t \<and> nearer i s t)"

lemma can_goI:
  "handle_step st L S E may_answer s (proceed i out g' s) \<Longrightarrow> at_stage s i g \<Longrightarrow> stage_rank g' < stage_rank g \<Longrightarrow>
     can_go st L S E may_answer i s"
  "handle_step st L S E may_answer s ((proceed i out g' s)\<lparr>handler := h, world := w\<rparr>) \<Longrightarrow> at_stage s i g \<Longrightarrow>
     stage_rank g' < stage_rank g \<Longrightarrow> can_go st L S E may_answer i s"
  by (unfold can_go_def) (rule exI, erule conjI, erule (1) nearer_proceed)+

lemma go_Arrived:
  assumes a: "at_stage s i Arrived"
  shows "can_go st L S E may_answer i s"
proof -
  consider "\<not> supported (req_of s i)"
    | "supported (req_of s i)" "IsBlocked (blocklist (handler s)) (name_of L (req_of s i))"
    | "supported (req_of s i)" "\<not> IsBlocked (blocklist (handler s)) (name_of L (req_of s i))" by blast
  then show ?thesis
  proof cases
    case 1 show ?thesis by (rule can_goI(1) [OF handle_step.unsupported [OF a 1] a]) simp
  next
    case 2 show ?thesis by (rule can_goI(1) [OF handle_step.is_blocked [OF a 2] a]) simp
  next
    case 3 show ?thesis by (rule can_goI(1) [OF handle_step.not_blocked [OF a 3] a]) simp
  qed
qed

lemma go_Asking_hosts:
  assumes a: "at_stage s i Asking_hosts"
  shows "can_go st L S E may_answer i s"
proof (cases "Hosts_Get [] [] (hosts (handler s)) (name_of L (req_of s i)) (getQuestionType (hd (Msg_Question (req_of s i))))")
  case None show ?thesis by (rule can_goI(1) [OF handle_step.no_host [OF a None] a]) simp
next
  case (Some ips) show ?thesis by (rule can_goI(1) [OF handle_step.host_found [OF a Some] a]) simp
qed

lemma go_Asking_negCache:
  assumes a: "at_stage s i Asking_negCache"
  shows "can_go st L S E may_answer i s"
proof -
  obtain res n w where g: "Cache_Get L S (negCache (handler s)) (request_key L (req_of s i)) (world s) = (res, n, w)"
    by (cases "Cache_Get L S (negCache (handler s)) (request_key L (req_of s i)) (world s)") auto
  show ?thesis
  proof (cases res)
    case (Inl err) show ?thesis by (rule can_goI(2) [OF handle_step.neg_miss [OF a g [unfolded Inl]] a]) simp
  next
    case (Inr x) show ?thesis by (rule can_goI(2) [OF handle_step.neg_hit [OF a g [unfolded Inr]] a]) simp
  qed
qed

lemma go_Resolving:
  assumes a: "at_stage s i (Resolving r)"
  shows "can_go st L S E may_answer i s"
proof -
  obtain err where l: "lookup_outcome L E may_answer (net_of s i) (req_of s i) r (Inl err) r"
    using lookup_timeout [of L E] by blast
  show ?thesis by (rule can_goI(1) [OF handle_step.failed [OF a l] a]) simp
qed

lemma go_Storing:
  "at_stage s i (Storing m) \<Longrightarrow> can_go st L S E may_answer i s"
  "at_stage s i Storing_failure \<Longrightarrow> can_go st L S E may_answer i s"
proof -
  obtain err c w where c: "Cache_Set L S (cache (handler s)) (request_key L (req_of s i)) (Some m) (world s) = (err, c, w)"
    by (cases "Cache_Set L S (cache (handler s)) (request_key L (req_of s i)) (Some m) (world s)") auto
  show "can_go st L S E may_answer i s" if a: "at_stage s i (Storing m)"
    by (rule can_goI(2) [OF handle_step.store [OF a c] a]) simp
  obtain err n w where n: "Cache_Set L S (negCache (handler s)) (request_key L (req_of s i)) None (world s) = (err, n, w)"
    by (cases "Cache_Set L S (negCache (handler s)) (request_key L (req_of s i)) None (world s)") auto
  show "can_go st L S E may_answer i s" if a: "at_stage s i Storing_failure"
    by (rule can_goI(2) [OF handle_step.store_failure [OF a n] a]) simp
qed

lemmas go_stages = go_Arrived go_Asking_hosts go_Asking_negCache go_Resolving go_Storing

lemma pool_of_step: "pool_of r0 r \<Longrightarrow> pool_of r0 (pool_step e r)"
  unfolding pool_of_def by (metis fold_simps(1,2) fold_append comp_apply)

context answer_cache
begin

lemma handle_step_ok:
  assumes "handle_step st L S E may_answer s t" and fit: "lookups_fit L E may_answer P R"
    and inv: "handling_ok ok L P R st s"
  shows "handling_ok ok L P R st t"
proof -
  have ts: "tasks_ok L P R st s" and c: "ok (cache (handler s))" and r: "R (resolver (handler s))"
    and p: "\<not> panicked s" using inv by (simp_all add: handling_ok_def)
  note go = tasks_ok_proceed [OF ts] and here = at_stage_ok [OF ts]
  from assms(1) show ?thesis
  proof cases
    case (cache_hit i m c' w)
    then show ?thesis using get_ok [OF c cache_hit(3)] go here [OF cache_hit(2)] r p
      by (auto simp: handling_ok_def reply_kinds)
  next
    case (cache_nil i c' w)
    then show ?thesis using get_ok [OF c cache_nil(3)] by simp
  next
    case (cache_miss i err c' w)
    then show ?thesis using get_ok [OF c cache_miss(3)] go here [OF cache_miss(2)] r p
      by (auto simp: handling_ok_def)
  next
    case (neg_miss i err n w)
    then show ?thesis using go here [OF neg_miss(2)] c r p by (auto simp: handling_ok_def)
  next
    case (resolved i r0 m r')
    have "P (request_key L (req_of s i)) m"
      using fit here [OF resolved(2)] resolved(3) unfolding lookups_fit_def task_ok.simps by blast
    then show ?thesis using resolved go here [OF resolved(2)] c r p
      by (auto simp: handling_ok_def reply_kinds)
  next
    case (store i m err c' w)
    have "P (request_key L (req_of s i)) m" using here [OF store(2)] by simp
    then show ?thesis using store set_ok [OF c _ store(3)] go here [OF store(2)] r p
      by (auto simp: handling_ok_def reply_kinds)
  next
    case (measured e)
    then show ?thesis using fit ts c r p by (simp add: handling_ok_def lookups_fit_def)
  next
    case (not_blocked i)
    then show ?thesis using go here [OF not_blocked(2)] c r p by (auto simp: handling_ok_def)
  next
    case (host_found i ord ord' ips)
    then show ?thesis using go here [OF host_found(2)] c r p by (auto simp: handling_ok_def reply_kinds)
  next
    case (hosts_round fs hgetall)
    then show ?thesis using ts c r p by (simp add: handling_ok_def)
  next
    case (blocklist_round fs redis g)
    then show ?thesis using ts c r p by (simp add: handling_ok_def)
  next
    case (arrive net req)
    then show ?thesis using ts c r p by (simp add: handling_ok_def tasks_ok_def new_task_def)
  qed (use go here c r p in \<open>force simp: handling_ok_def reply_kinds\<close>)+
qed

lemma handling_reachable_ok:
  assumes "handling_reachable st L S E may_answer h w s" and "lookups_fit L E may_answer P R"
    and "ok (cache h)" and "R (resolver h)"
  shows "handling_ok ok L P R st s"
  using assms(1) unfolding handling_reachable_def
proof (induction rule: rtranclp_induct)
  case base
  then show ?case using assms(3,4) by (simp add: handling_ok_def start_handling_def tasks_ok_def)
qed (use handle_step_ok [OF _ assms(2)] in blast)

lemma task_progress:
  assumes inv: "handling_ok ok L P R st s" and i: "i < length (tasks s)" "task_stage (tasks s ! i) \<noteq> Finished"
  shows "can_go st L S E may_answer i s"
proof -
  have c: "ok (cache (handler s))" using inv by (simp add: handling_ok_def)
  have at: "at_stage s i (task_stage (tasks s ! i))" using i(1) by (simp add: at_stage_def)
  show ?thesis
  proof (cases "task_stage (tasks s ! i)")
    case Asking_cache
    with at have a: "at_stage s i Asking_cache" by simp
    obtain res c' w where g: "Cache_Get L S (cache (handler s)) (request_key L (req_of s i)) (world s) = (res, c', w)"
      by (cases "Cache_Get L S (cache (handler s)) (request_key L (req_of s i)) (world s)") auto
    show ?thesis
    proof (cases res)
      case (Inl err) show ?thesis by (rule can_goI(2) [OF handle_step.cache_miss [OF a g [unfolded Inl]] a]) simp
    next
      case (Inr x)
      then obtain m where m: "res = Inr (Some m)" using get_ok [OF c g] by blast
      show ?thesis by (rule can_goI(2) [OF handle_step.cache_hit [OF a g [unfolded m]] a]) simp
    qed
  qed (use at i in \<open>auto intro: go_stages\<close>)
qed

end

text \<open>A task that has finished is left alone for ever.\<close>

lemma finished_step:
  "handle_step st L S E may_answer s t \<Longrightarrow> at_stage s i Finished \<Longrightarrow>
     at_stage t i Finished \<and> tasks t ! i = tasks s ! i"
  by (erule handle_stepE) (auto simp: at_stage_def proceed_def nth_append nth_list_update)

lemma finished_final:
  "(handle_step st L S E may_answer)\<^sup>*\<^sup>* s t \<Longrightarrow> at_stage s i Finished \<Longrightarrow>
     at_stage t i Finished \<and> tasks t ! i = tasks s ! i"
  by (induction rule: rtranclp_induct) (auto dest: finished_step)

section \<open>One query alone\<close>

text \<open>The steps of a task that is not interrupted are those of \<open>Do\<close>.\<close>

abbreviation runs ::
  "Settings \<Rightarrow> dns_lib \<Rightarrow> 'w cache_servers \<Rightarrow> 'v dns_env \<Rightarrow> network \<Rightarrow> 'w handling \<Rightarrow> 'w handling \<Rightarrow> bool" where
  "runs st L S E may_answer \<equiv> (handle_step st L S E may_answer)\<^sup>*\<^sup>*"

lemma run_step: "handle_step st L S E may_answer s t \<Longrightarrow> runs st L S E may_answer t u \<Longrightarrow> runs st L S E may_answer s u"
  by (rule converse_rtranclp_into_rtranclp)

lemma measured_run:
  "runs st L S E may_answer s
     (s\<lparr>handler := (handler s)\<lparr>resolver := fold pool_step es (resolver (handler s))\<rparr>\<rparr>)"
proof (induction es arbitrary: s)
  case (Cons e es)
  show ?case
    using run_step [OF handle_step.measured [of st L S E may_answer s e] Cons.IH] by simp
qed simp

lemma proceed_simps:
  "i < length (tasks s) \<Longrightarrow> at_stage (proceed i out g s) i g"
  "i < length (tasks s) \<Longrightarrow> task_req (tasks (proceed i out g s) ! i) = task_req (tasks s ! i)"
  "i < length (tasks s) \<Longrightarrow> task_net (tasks (proceed i out g s) ! i) = task_net (tasks s ! i)"
  "i < length (tasks s) \<Longrightarrow> proceed i out' g' (proceed i out g s) = proceed i (out @ out') g' s"
  "proceed i out g (s\<lparr>handler := h\<rparr>) = (proceed i out g s)\<lparr>handler := h\<rparr>"
  "proceed i out g (s\<lparr>world := w\<rparr>) = (proceed i out g s)\<lparr>world := w\<rparr>"
  "at_stage (s\<lparr>handler := h\<rparr>) i g = at_stage s i g" "at_stage (s\<lparr>world := w\<rparr>) i g = at_stage s i g"
  "length (tasks (proceed i out g s)) = length (tasks s)"
  by (simp_all add: proceed_def at_stage_def)

text \<open>The updates of the round-trip times that a lookup makes.\<close>

lemma lookup_measured:
  assumes "lookup_outcome L E may_answer net req (resolver (handler t)) res r"
  shows "runs st L S E' may_answer' t (t\<lparr>handler := (handler t)\<lparr>resolver := r\<rparr>\<rparr>)"
proof -
  obtain es where "r = fold pool_step es (resolver (handler t))"
    using lookup_outcome_pool [of L E may_answer net req "[]" "resolver (handler t)" res r] assms by auto
  then show ?thesis using measured_run [of st L S E' may_answer' t es] by simp
qed

lemma failed_run:
  assumes a: "at_stage s i (Resolving (resolver (handler s)))"
    and o: "lookup_outcome L E may_answer (net_of s i) (req_of s i) (resolver (handler s)) (Inl err) r"
    and set: "Cache_Set L S (negCache (handler s)) (request_key L (req_of s i)) None (world s) = (e, n, w)"
  shows "runs st L S E may_answer s ((proceed i [HandleFailed L (req_of s i)] Finished s)
    \<lparr>handler := (handler s)\<lparr>resolver := r, negCache := n\<rparr>, world := w\<rparr>)"
proof -
  have i: "i < length (tasks s)" using a by (simp add: at_stage_def)
  let ?s1 = "proceed i [HandleFailed L (req_of s i)] Storing_failure s"
  let ?s2 = "?s1\<lparr>handler := (handler s)\<lparr>resolver := r\<rparr>\<rparr>"
  have "handle_step st L S E may_answer s ?s1" by (rule handle_step.failed [OF a o])
  moreover have "runs st L S E may_answer ?s1 ?s2" using lookup_measured [of L E may_answer _ _ ?s1] o by simp
  moreover have "handle_step st L S E may_answer ?s2 ((proceed i [] Finished ?s2)
      \<lparr>handler := (handler ?s2)\<lparr>negCache := n\<rparr>, world := w\<rparr>)"
    by (rule handle_step.store_failure) (simp_all add: proceed_simps i set)
  ultimately have "runs st L S E may_answer s ((proceed i [] Finished ?s2)
      \<lparr>handler := (handler ?s2)\<lparr>negCache := n\<rparr>, world := w\<rparr>)"
    by (meson converse_rtranclp_into_rtranclp rtranclp.rtrancl_into_rtrancl)
  then show ?thesis by (simp add: proceed_simps i)
qed

lemma resolved_run:
  assumes a: "at_stage s i (Resolving (resolver (handler s)))"
    and o: "lookup_outcome L E may_answer (net_of s i) (req_of s i) (resolver (handler s)) (Inr m) r"
  shows "Answer m = [] \<Longrightarrow> runs st L S E may_answer s
      ((proceed i [m] Finished s)\<lparr>handler := (handler s)\<lparr>resolver := r\<rparr>, world := world s\<rparr>)"
    and "Answer m \<noteq> [] \<Longrightarrow>
      Cache_Set L S (cache (handler s)) (request_key L (req_of s i)) (Some m) (world s) = (e, c, w) \<Longrightarrow>
      runs st L S E may_answer s
        ((proceed i [m] Finished s)\<lparr>handler := (handler s)\<lparr>resolver := r, cache := c\<rparr>, world := w\<rparr>)"
proof -
  have i: "i < length (tasks s)" using a by (simp add: at_stage_def)
  let ?s1 = "proceed i [m] (if Answer m \<noteq> [] then Storing m else Finished) s"
  let ?s2 = "?s1\<lparr>handler := (handler s)\<lparr>resolver := r\<rparr>\<rparr>"
  have "handle_step st L S E may_answer s ?s1" by (rule handle_step.resolved [OF a o])
  moreover have "runs st L S E may_answer ?s1 ?s2" by (rule lookup_measured [where t = ?s1, unfolded proceed_frame, OF o])
  ultimately have run: "runs st L S E may_answer s ?s2" by (rule run_step)
  have same: "(proceed i [m] Finished s)\<lparr>handler := h, world := world s\<rparr> = (proceed i [m] Finished s)\<lparr>handler := h\<rparr>" for h
    by (cases s) (simp add: proceed_def)
  show "Answer m = [] \<Longrightarrow> runs st L S E may_answer s
      ((proceed i [m] Finished s)\<lparr>handler := (handler s)\<lparr>resolver := r\<rparr>, world := world s\<rparr>)"
    using run unfolding same by simp
  assume m: "Answer m \<noteq> []"
    and set: "Cache_Set L S (cache (handler s)) (request_key L (req_of s i)) (Some m) (world s) = (e, c, w)"
  have "handle_step st L S E may_answer ?s2 ((proceed i [] Finished ?s2)
      \<lparr>handler := (handler ?s2)\<lparr>cache := c\<rparr>, world := w\<rparr>)"
    by (rule handle_step.store [where m = m]) (use m in \<open>simp_all add: proceed_simps i set\<close>)
  with run have "runs st L S E may_answer s ((proceed i [] Finished ?s2)
      \<lparr>handler := (handler ?s2)\<lparr>cache := c\<rparr>, world := w\<rparr>)" by (rule rtranclp.rtrancl_into_rtrancl)
  then show "runs st L S E may_answer s
      ((proceed i [m] Finished s)\<lparr>handler := (handler s)\<lparr>resolver := r, cache := c\<rparr>, world := w\<rparr>)"
    using m by (simp add: proceed_simps i)
qed

lemma resolve_run:
  assumes a: "at_stage s i (Resolving (resolver (handler s)))"
    and l: "real_lookup L E may_answer lookup (net_of s i) (req_of s i) (resolver (handler s))"
    and d: "do_resolve L S lookup (handler s) (net_of s i) (req_of s i) (request_key L (req_of s i)) (world s) =
      Return (h', out, w')"
  shows "runs st L S E may_answer s ((proceed i out Finished s)\<lparr>handler := h', world := w'\<rparr>)"
proof -
  let ?h = "handler s" and ?key = "request_key L (req_of s i)"
  obtain res r where lr: "lookup (net_of s i) (req_of s i) (resolver ?h) = (res, r)"
    by (cases "lookup (net_of s i) (req_of s i) (resolver ?h)")
  with l have o: "lookup_outcome L E may_answer (net_of s i) (req_of s i) (resolver ?h) res r"
    by (simp add: real_lookup_def)
  show ?thesis
  proof (cases res)
    case (Inl err)
    obtain e n w where set: "Cache_Set L S (negCache ?h) ?key None (world s) = (e, n, w)"
      by (cases "Cache_Set L S (negCache ?h) ?key None (world s)") auto
    with failed_run [OF a o [unfolded Inl] set] d lr Inl show ?thesis by (simp add: do_resolve_def)
  next
    case (Inr m)
    obtain e c w where set: "Cache_Set L S (cache ?h) ?key (Some m) (world s) = (e, c, w)"
      by (cases "Cache_Set L S (cache ?h) ?key (Some m) (world s)") auto
    with resolved_run [OF a o [unfolded Inr]] d lr Inr show ?thesis
      by (cases "Answer m = []") (auto simp: do_resolve_def)
  qed
qed

lemma negative_run:
  assumes a: "at_stage s i Asking_negCache"
    and l: "real_lookup L E may_answer lookup (net_of s i) (req_of s i) (resolver (handler s))"
    and g: "Cache_Get L S (negCache (handler s)) (request_key L (req_of s i)) (world s) = (res, n, w)"
    and d: "(case res of Inr x \<Rightarrow> Return ((handler s)\<lparr>negCache := n\<rparr>, [HandleFailed L (req_of s i)], w)
      | Inl err \<Rightarrow> do_resolve L S lookup ((handler s)\<lparr>negCache := n\<rparr>) (net_of s i) (req_of s i)
          (request_key L (req_of s i)) w) = Return (h', out, w')"
  shows "runs st L S E may_answer s ((proceed i out Finished s)\<lparr>handler := h', world := w'\<rparr>)"
proof -
  have i: "i < length (tasks s)" using a by (simp add: at_stage_def)
  show ?thesis
  proof (cases res)
    case (Inr x)
    with d handle_step.neg_hit [OF a g [unfolded Inr]] show ?thesis by (auto intro: r_into_rtranclp)
  next
    case (Inl err)
    let ?s1 = "(proceed i [] (Resolving (resolver (handler s))) s)\<lparr>handler := (handler s)\<lparr>negCache := n\<rparr>, world := w\<rparr>"
    have "runs st L S E may_answer ?s1 ((proceed i out Finished ?s1)\<lparr>handler := h', world := w'\<rparr>)"
      by (rule resolve_run [where lookup = lookup]) (use l d Inl in \<open>simp_all add: proceed_simps i\<close>)
    with handle_step.neg_miss [OF a g [unfolded Inl]]
    have "runs st L S E may_answer s ((proceed i out Finished ?s1)\<lparr>handler := h', world := w'\<rparr>)" by (rule run_step)
    then show ?thesis by (simp add: proceed_simps i)
  qed
qed

lemma cached_run:
  assumes a: "at_stage s i Asking_cache"
    and l: "real_lookup L E may_answer lookup (net_of s i) (req_of s i) (resolver (handler s))"
    and d: "do_cached L S lookup (handler s) (net_of s i) (req_of s i) (request_key L (req_of s i)) (world s) =
      Return (h', out, w')"
  shows "runs st L S E may_answer s ((proceed i out Finished s)\<lparr>handler := h', world := w'\<rparr>)"
proof -
  have i: "i < length (tasks s)" using a by (simp add: at_stage_def)
  let ?h = "handler s" and ?key = "request_key L (req_of s i)"
  obtain res c w1 where g: "Cache_Get L S (cache ?h) ?key (world s) = (res, c, w1)"
    by (cases "Cache_Get L S (cache ?h) ?key (world s)") auto
  show ?thesis
  proof (cases res)
    case (Inr x)
    with d g obtain m where m: "x = Some m" by (cases x) (simp_all add: do_cached_def)
    with d g Inr handle_step.cache_hit [OF a g [unfolded Inr m]] show ?thesis
      by (auto simp: do_cached_def intro: r_into_rtranclp)
  next
    case (Inl err)
    let ?s1 = "(proceed i [] Asking_negCache s)\<lparr>handler := ?h\<lparr>cache := c\<rparr>, world := w1\<rparr>"
    obtain res' n w2 where g': "Cache_Get L S (negCache ?h) ?key w1 = (res', n, w2)"
      by (cases "Cache_Get L S (negCache ?h) ?key w1") auto
    have "runs st L S E may_answer ?s1 ((proceed i out Finished ?s1)\<lparr>handler := h', world := w'\<rparr>)"
      by (rule negative_run [where lookup = lookup and res = res' and n = n and w = w2])
         (use l d g Inl g' in \<open>simp_all add: proceed_simps i do_cached_def Let_def cong: sum.case_cong\<close>)
    with handle_step.cache_miss [OF a g [unfolded Inl]]
    have "runs st L S E may_answer s ((proceed i out Finished ?s1)\<lparr>handler := h', world := w'\<rparr>)" by (rule run_step)
    then show ?thesis by (simp add: proceed_simps i)
  qed
qed

text \<open>A task whose reply is known before the caches are asked.\<close>

lemma early_run:
  assumes "handle_step st L S E may_answer s (proceed i out Finished s)"
  shows "runs st L S E may_answer s ((proceed i out Finished s)\<lparr>handler := handler s, world := world s\<rparr>)"
proof -
  have same: "(proceed i out Finished s)\<lparr>handler := handler s, world := world s\<rparr> = proceed i out Finished s"
    by (cases s) (simp add: proceed_def)
  show ?thesis unfolding same using assms by (rule r_into_rtranclp)
qed

lemma hosts_run:
  assumes a: "at_stage s i Asking_hosts" and "hosts_Enable (Hosts_settings st)" and "supported (req_of s i)"
    and "\<not> IsBlocked (blocklist (handler s)) (name_of L (req_of s i))"
    and l: "real_lookup L E may_answer lookup (net_of s i) (req_of s i) (resolver (handler s))"
    and d: "Do st L S ord ord' lookup (handler s) (net_of s i) (req_of s i) (world s) = Return (h', out, w')"
  shows "runs st L S E may_answer s ((proceed i out Finished s)\<lparr>handler := h', world := w'\<rparr>)"
proof -
  have i: "i < length (tasks s)" using a by (simp add: at_stage_def)
  let ?q = "hd (Msg_Question (req_of s i))"
  have name: "qname (cache_question L ?q) = name_of L (req_of s i)" by (simp add: cache_question_def)
  show ?thesis
  proof (cases "Hosts_Get ord ord' (hosts (handler s)) (name_of L (req_of s i)) (getQuestionType ?q)")
    case (Some ips)
    with assms(2-4) d have "h' = handler s" "w' = world s"
      "out = [host_reply L st (req_of s i) ?q (name_of L (req_of s i)) ips]"
      by (simp_all add: Do_def Let_def name)
    with early_run [OF handle_step.host_found [OF a Some]] show ?thesis by simp
  next
    case None
    let ?s1 = "proceed i [] Asking_cache s"
    have "do_cached L S lookup (handler s) (net_of s i) (req_of s i) (request_key L (req_of s i)) (world s) =
        Return (h', out, w')"
      using assms(2-4) d None by (simp add: Do_def Let_def name request_key_def)
    then have "runs st L S E may_answer ?s1 ((proceed i out Finished ?s1)\<lparr>handler := h', world := w'\<rparr>)"
      by (intro cached_run [where lookup = lookup]) (use l in \<open>simp_all add: proceed_simps i\<close>)
    with handle_step.no_host [OF a None]
    have "runs st L S E may_answer s ((proceed i out Finished ?s1)\<lparr>handler := h', world := w'\<rparr>)" by (rule run_step)
    then show ?thesis by (simp add: proceed_simps i)
  qed
qed

lemma Do_run:
  assumes a: "at_stage s i Arrived"
    and l: "real_lookup L E may_answer lookup (net_of s i) (req_of s i) (resolver (handler s))"
    and d: "Do st L S ord ord' lookup (handler s) (net_of s i) (req_of s i) (world s) = Return (h', out, w')"
  shows "runs st L S E may_answer s ((proceed i out Finished s)\<lparr>handler := h', world := w'\<rparr>)"
proof -
  have i: "i < length (tasks s)" using a by (simp add: at_stage_def)
  let ?g = "if hosts_Enable (Hosts_settings st) then Asking_hosts else Asking_cache"
  let ?s1 = "proceed i [] ?g s"
  consider "\<not> supported (req_of s i)"
    | "supported (req_of s i)" "IsBlocked (blocklist (handler s)) (name_of L (req_of s i))"
    | "supported (req_of s i)" "\<not> IsBlocked (blocklist (handler s)) (name_of L (req_of s i))" by blast
  then show ?thesis
  proof cases
    case 1
    with early_run [OF handle_step.unsupported [OF a 1]] d show ?thesis by (auto simp: Do_def)
  next
    case 2
    with early_run [OF handle_step.is_blocked [OF a 2]] d show ?thesis by (simp add: Do_def Let_def)
  next
    case 3
    have "runs st L S E may_answer ?s1 ((proceed i out Finished ?s1)\<lparr>handler := h', world := w'\<rparr>)"
    proof (cases "hosts_Enable (Hosts_settings st)")
      case True
      with 3 l d show ?thesis
        by (intro hosts_run [where lookup = lookup and ord = ord and ord' = ord']) (simp_all add: proceed_simps i)
    next
      case False
      with 3 d have "do_cached L S lookup (handler s) (net_of s i) (req_of s i) (request_key L (req_of s i)) (world s) =
          Return (h', out, w')" by (simp add: Do_reaches_cache)
      with False l show ?thesis by (intro cached_run [where lookup = lookup]) (simp_all add: proceed_simps i)
    qed
    with handle_step.not_blocked [OF a 3]
    have "runs st L S E may_answer s ((proceed i out Finished ?s1)\<lparr>handler := h', world := w'\<rparr>)" by (rule run_step)
    then show ?thesis by (simp add: proceed_simps i split: if_splits)
  qed
qed

section \<open>Properties\<close>

text \<open>C2: Overlapping queries: whatever the interleaving of any number of queries and of refreshes of the
  hosts and the blocklist, from a new handler with memory caches, the program does not panic; a
  query never gets two messages; what it gets is NXDOMAIN, an answer from the hosts, a failure, or
  a message that a configured nameserver gave to a request with the same key; a task that has
  finished has answered, and one that has not can always go on, at most six times.\<close>

theorem overlapping_queries_answered:
  assumes "NewHandler L fs resolv_conf redis st = Return (h, gs)" and "uses_memory st"
    and "handling_reachable st L S E may_answer h w s" and "i < length (tasks s)"
  shows "\<not> panicked s \<and> length (written (tasks s ! i)) \<le> 1 \<and>
    (\<forall>m \<in> set (written (tasks s ! i)).
       reply_kind L (answered_by L may_answer (ResolvConfig st) (configured (resolver h))) st (req_of s i) m) \<and>
    (if task_stage (tasks s ! i) = Finished then written (tasks s ! i) \<noteq> []
     else \<exists>t. handle_step st L S E may_answer s t \<and>
       stage_rank (task_stage (tasks t ! i)) < stage_rank (task_stage (tasks s ! i)))"
proof -
  let ?P = "answered_by L may_answer (ResolvConfig st) (configured (resolver h))"
  have "pool_of (resolver h) (resolver h)" unfolding pool_of_def by (intro exI [of _ "[]"]) simp
  moreover have "entries_ok ?P (cache h)"
    using NewHandler_shape(2) [OF assms(1)] entries_ok_new [OF assms(2)] by simp
  moreover have "lookups_fit L E may_answer ?P (pool_of (resolver h))"
    using lookup_outcome_good [OF NewHandler_shape(1) [OF assms(1)]] pool_of_step
    unfolding lookups_fit_def pool_of_def answered_by_def by blast
  ultimately have inv: "handling_ok (entries_ok ?P) L ?P (pool_of (resolver h)) st s"
    using memory_backend.handling_reachable_ok [OF assms(3)] by blast
  then have "task_ok L ?P (pool_of (resolver h)) st (req_of s i) (written (tasks s ! i)) (task_stage (tasks s ! i))"
    using assms(4) by (simp add: handling_ok_def tasks_ok_def)
  moreover have "task_stage (tasks s ! i) \<noteq> Finished \<Longrightarrow> can_go st L S E may_answer i s"
    by (rule memory_backend.task_progress [OF inv assms(4)])
  ultimately show ?thesis
    using inv by (cases "task_stage (tasks s ! i)")
      (auto simp: handling_ok_def can_go_def nearer_def reply_kinds)
qed

text \<open>C24: \<open>Do\<close> is the run of a task that nothing interrupts: it leads from the arrival of a query to the
  handler, the reply and the state of the servers that \<open>Do\<close> returns, with all other tasks where
  they were.\<close>

theorem Do_is_uninterrupted_run:
  assumes "Do st L S ord ord' lookup (handler s) net req (world s) = Return (h', out, w')"
    and "real_lookup L E may_answer lookup net req (resolver (handler s))"
    and "i < length (tasks s)" and "tasks s ! i = new_task net req"
  shows "(handle_step st L S E may_answer)\<^sup>*\<^sup>* s
    (s\<lparr>tasks := (tasks s)[i := \<lparr>task_net = net, task_req = req, task_stage = Finished, written = out\<rparr>],
       handler := h', world := w'\<rparr>)"
proof -
  have "at_stage s i Arrived" using assms(3,4) by (simp add: at_stage_def new_task_def)
  from Do_run [OF this, of L E may_answer lookup st S ord ord' h' out w'] assms show ?thesis
    by (simp add: new_task_def proceed_def)
qed

section \<open>Witnesses\<close>

definition one_query :: "GODNSHandler \<Rightarrow> Msg \<Rightarrow> kv handling" where
  "one_query h req = (start_handling h Map.empty)\<lparr>tasks := [new_task ''tcp'' req]\<rparr>"

lemma one_query_reachable: "handling_reachable st L kv_servers E may_answer h Map.empty (one_query h req)"
proof -
  have "handle_step st L kv_servers E may_answer (start_handling h Map.empty) (one_query h req)"
    using handle_step.arrive [of st L kv_servers E may_answer "start_handling h Map.empty" "''tcp''" req]
    by (simp add: one_query_def start_handling_def)
  then show ?thesis unfolding handling_reachable_def by (rule r_into_rtranclp)
qed

theorem overlapping_queries_answered_witness:
  "\<exists>h s t. handling_reachable (example_settings ''memory'') sample_lib kv_servers sample_env echo h Map.empty s \<and>
     length (tasks s) = 1 \<and> \<not> panicked s \<and>
     handle_step (example_settings ''memory'') sample_lib kv_servers sample_env echo s t"
proof -
  obtain h gs where h: "NewHandler sample_lib example_fs sample_conf (\<lambda>_. None) (example_settings ''memory'') =
      Return (h, gs)" using example_NewHandler by blast
  let ?s = "one_query h sample_query"
  have m: "uses_memory (example_settings ''memory'')" by (simp add: uses_memory_def example_settings_simps)
  have "0 < length (tasks ?s)" "task_stage (tasks ?s ! 0) \<noteq> Finished" "length (tasks ?s) = 1"
    by (simp_all add: one_query_def new_task_def)
  moreover have r: "handling_reachable (example_settings ''memory'') sample_lib kv_servers sample_env echo h Map.empty ?s"
    by (rule one_query_reachable)
  ultimately show ?thesis using overlapping_queries_answered [OF h m r, of 0] by auto
qed

theorem Do_is_uninterrupted_run_witness:
  "\<exists>h s. (handle_step (example_settings ''memory'') sample_lib kv_servers sample_env echo)\<^sup>*\<^sup>*
       (one_query h (query_for ''ads.com.'' TypeA)) s \<and>
     map written (tasks s) = [[blocked_reply sample_lib (query_for ''ads.com.'' TypeA)]]"
proof -
  obtain h gs where h: "NewHandler sample_lib example_fs sample_conf (\<lambda>_. None) (example_settings ''memory'') =
      Return (h, gs)" "\<forall>d. IsBlocked (blocklist h) d \<longleftrightarrow> d = ''ads.com''" using example_NewHandler by blast
  let ?req = "query_for ''ads.com.'' TypeA" and ?st = "example_settings ''memory''"
  let ?s = "one_query h ?req"
  obtain err where err: "lookup_outcome sample_lib sample_env echo ''tcp'' ?req (resolver h) (Inl err) (resolver h)"
    using lookup_timeout [of sample_lib sample_env] by blast
  have s: "handler ?s = h" "world ?s = Map.empty" "tasks ?s = [new_task ''tcp'' ?req]"
    by (simp_all add: one_query_def start_handling_def)
  have "Do ?st sample_lib kv_servers [] [] (\<lambda>_ _ r. (Inl err, r)) (handler ?s) ''tcp'' ?req (world ?s) =
      Return (h, [blocked_reply sample_lib ?req], Map.empty)"
    using h(2) by (simp add: Do_def s query_simps)
  moreover have "real_lookup sample_lib sample_env echo (\<lambda>_ _ r. (Inl err, r)) ''tcp'' ?req (resolver (handler ?s))"
    using err by (simp add: real_lookup_def s)
  ultimately have "(handle_step ?st sample_lib kv_servers sample_env echo)\<^sup>*\<^sup>* ?s
      (?s\<lparr>tasks := (tasks ?s)[0 := \<lparr>task_net = ''tcp'', task_req = ?req, task_stage = Finished,
         written = [blocked_reply sample_lib ?req]\<rparr>], handler := h, world := Map.empty\<rparr>)"
    by (rule Do_is_uninterrupted_run) (simp_all add: s)
  then show ?thesis by (intro exI conjI) (assumption, simp add: s)
qed

end
