(* ===== verification/Server.thy ===== *)
theory Server
  imports Handler
begin

text \<open>
  The listeners of \<open>server.go\<close> and the start of the program in \<open>main.go\<close>. The package \<open>dns\<close> does the
  listening: \<open>listen\<close> is the error of \<open>ListenAndServe\<close>, if any, and a \<open>ServeMux\<close> with the single
  pattern \<open>.\<close> hands every query to the function registered for it, which is a value of the type
  \<open>handle_func\<close> here. What \<open>Run\<close> starts with \<open>go\<close> is part of its result. The profiles
  (\<open>profileCPU\<close>, \<open>profileMEM\<close>) are left out but for the decision to start them.
\<close>

section \<open>Listeners\<close>

record Server =
  server_host :: string
  server_port :: int
  rTimeout :: duration
  wTimeout :: duration

definition Server_Addr :: "Server \<Rightarrow> string" where
  "Server_Addr s = JoinHostPort (server_host s) (Itoa (server_port s))"

datatype handle_func = Handle_DoTCP | Handle_DoUDP

record dns_Server =
  srv_Addr :: string
  srv_Net :: string
  srv_Handler :: "string \<times> handle_func"
  srv_UDPSize :: nat
  srv_ReadTimeout :: duration
  srv_WriteTimeout :: duration

text \<open>\<open>dns.DefaultMsgSize\<close>.\<close>

definition DefaultMsgSize :: nat where "DefaultMsgSize = 4096"

definition listeners :: "Server \<Rightarrow> dns_Server list" where
  "listeners s =
     (let dnsMux = (''.'', Handle_DoTCP);
          tcpServer = \<lparr>srv_Addr = Server_Addr s, srv_Net = ''tcp'', srv_Handler = dnsMux, srv_UDPSize = 0,
            srv_ReadTimeout = rTimeout s, srv_WriteTimeout = wTimeout s\<rparr>;
          udpServer = \<lparr>srv_Addr = Server_Addr s, srv_Net = ''udp'', srv_Handler = dnsMux,
            srv_UDPSize = DefaultMsgSize, srv_ReadTimeout = rTimeout s, srv_WriteTimeout = wTimeout s\<rparr>
      in [udpServer, tcpServer])"

definition Server_Run ::
  "dns_lib \<Rightarrow> filesystem \<Rightarrow> (string \<Rightarrow> (string list \<times> string) option) \<Rightarrow> smembers \<Rightarrow> Settings \<Rightarrow> Server \<Rightarrow>
     (GODNSHandler \<times> refresher list \<times> dns_Server list) outcome" where
  "Server_Run L fs resolv_conf redis st s =
     bind_outcome (NewHandler L fs resolv_conf redis st) (\<lambda>(h, gs). Return (h, gs, listeners s))"

definition Server_start ::
  "(dns_Server \<Rightarrow> string option) \<Rightarrow> Server \<Rightarrow> dns_Server \<Rightarrow> GoDNSLogger \<Rightarrow> GoDNSLogger option" where
  "Server_start listen s ds l =
     Option.bind (Logger_Info l (''Starting '' @ srv_Net ds @ '' listener on '' @ Server_Addr s)) (\<lambda>l1.
     Option.bind (case listen ds of
         None \<Rightarrow> Some l1
       | Some err \<Rightarrow> Logger_Error l1
           (''Failed to start '' @ srv_Net ds @ '' listener on '' @ Server_Addr s @ '': '' @ err)) (\<lambda>l2.
     Logger_Info l2 (''Shutting down '' @ srv_Net ds @ '' listener on '' @ Server_Addr s)))"

text \<open>A query that a listener receives: its handler runs the registered function.\<close>

fun call_handler ::
  "handle_func \<Rightarrow> Settings \<Rightarrow> dns_lib \<Rightarrow> 'w cache_servers \<Rightarrow> string list \<Rightarrow> string list \<Rightarrow> lookup_fun \<Rightarrow>
     GODNSHandler \<Rightarrow> Msg \<Rightarrow> 'w \<Rightarrow> 'w reply" where
  "call_handler Handle_DoTCP = DoTCP"
| "call_handler Handle_DoUDP = DoUDP"

definition serve_query ::
  "dns_Server \<Rightarrow> Settings \<Rightarrow> dns_lib \<Rightarrow> 'w cache_servers \<Rightarrow> string list \<Rightarrow> string list \<Rightarrow> lookup_fun \<Rightarrow>
     GODNSHandler \<Rightarrow> Msg \<Rightarrow> 'w \<Rightarrow> 'w reply" where
  "serve_query ds = call_handler (snd (srv_Handler ds))"

section \<open>Start of the program\<close>

definition initLogger :: "(string \<Rightarrow> bool) \<Rightarrow> LogSettings \<Rightarrow> GoDNSLogger \<Rightarrow> GoDNSLogger outcome" where
  "initLogger can_open ls l =
     bind_outcome (if log_Stdout ls then SetLogger can_open l ''console'' fmempty else Return l) (\<lambda>l1.
     bind_outcome
       (if log_File ls \<noteq> [] then SetLogger can_open l1 ''file'' (fmupd ''file'' (IString (log_File ls)) fmempty)
        else Return l1) (\<lambda>l2.
     bind_outcome (LogLevel ls) (\<lambda>level. Return (SetLevel l2 level))))"

datatype profile = CPU_profile | MEM_profile

record program =
  prog_logger :: "GoDNSLogger option"
  prog_handler :: GODNSHandler
  prog_refreshers :: "refresher list"
  prog_listeners :: "dns_Server list"
  prog_profiles :: "profile list"

text \<open>\<open>Run\<close> up to the wait for the signal, and what it does after it.\<close>

definition godns_Run ::
  "(string \<Rightarrow> bool) \<Rightarrow> dns_lib \<Rightarrow> filesystem \<Rightarrow> (string \<Rightarrow> (string list \<times> string) option) \<Rightarrow> smembers \<Rightarrow>
     Settings \<Rightarrow> GoDNSLogger \<Rightarrow> program outcome" where
  "godns_Run can_open L fs resolv_conf redis st l =
     bind_outcome (initLogger can_open (Log_settings st) l) (\<lambda>l1.
     let server = \<lparr>server_host = Host (Server_settings st), server_port = Port (Server_settings st),
                   rTimeout = 5 * Second, wTimeout = 5 * Second\<rparr>
     in bind_outcome (Server_Run L fs resolv_conf redis st server) (\<lambda>(h, gs, ls).
       Return \<lparr>prog_logger = Logger_Info l1 (''godns '' @ Version st @ '' start''), prog_handler = h,
         prog_refreshers = gs, prog_listeners = ls,
         prog_profiles = (if Debug st then [CPU_profile, MEM_profile] else [])\<rparr>))"

definition signal_received :: "GoDNSLogger \<Rightarrow> GoDNSLogger option" where
  "signal_received l = Logger_Info l ''signal received, stopping''"

section \<open>Decimal numbers\<close>

definition digits_value :: "string \<Rightarrow> nat" where
  "digits_value s = foldl (\<lambda>n c. 10 * n + (of_char c - 48)) 0 s"

lemma digits_value_of: "digits_value (digits_of n) = n"
proof (induction n rule: digits_of.induct)
  case (1 n)
  have "(of_char (char_of (48 + k) :: char) :: nat) = 48 + k" if "k < 10" for k :: nat
    using that by simp
  then show ?case
    using 1 by (subst digits_of.simps) (simp add: digits_value_def)
qed

lemma digits_of_digits: "c \<in> set (digits_of n) \<Longrightarrow> 48 \<le> (of_char c :: nat) \<and> (of_char c :: nat) \<le> 57"
proof (induction n rule: digits_of.induct)
  case (1 n)
  then show ?case by (subst (asm) (2) digits_of.simps) (auto split: if_splits)
qed

lemma plain_Itoa: "plain (Itoa n)"
  using digits_of_digits by (fastforce simp: plain_def Itoa_def)

lemma Itoa_inj: "Itoa m = Itoa n \<Longrightarrow> m = n"
proof -
  have minus: "CHR ''-'' \<notin> set (digits_of k)" for k using digits_of_digits [of "CHR ''-''" k] by auto
  have nonneg: "i = j" if "digits_of (nat i) = digits_of (nat j)" "0 \<le> i" "0 \<le> j" for i j :: int
    using arg_cong [OF that(1), of digits_value] that(2,3) by (simp add: digits_value_of)
  show "Itoa m = Itoa n \<Longrightarrow> m = n"
    using nonneg [of m n] nonneg [of "- m" "- n"] minus [of "nat m"] minus [of "nat n"]
    by (auto simp: Itoa_def split: if_splits) (metis list.set_intros(1))+
qed

section \<open>Logging\<close>

lemma SetLogger_console: "SetLogger can_open l ''console'' fmempty =
    Return (l\<lparr>outputs := fmupd ''console'' (Console \<lparr>ch_level = 0, ch_logger = True\<rparr>) (outputs l)\<rparr>)"
  by (simp add: SetLogger_def ConsoleHandler_Setup_def NewConsoleHandler_def)

lemma SetLogger_file: "SetLogger can_open l ''file'' (fmupd ''file'' (IString f) fmempty) =
    Return (l\<lparr>outputs := fmupd ''file'' (File \<lparr>fh_level = 0, fh_file = f,
      fh_logger = (if can_open f then Some f else None)\<rparr>) (outputs l)\<rparr>)"
  by (simp add: SetLogger_def FileHandler_Setup_def NewFileHandler_def)

text \<open>The handlers that the settings ask for.\<close>

definition wanted_outputs :: "(string \<Rightarrow> bool) \<Rightarrow> LogSettings \<Rightarrow> (string \<times> LoggerHandler) list" where
  "wanted_outputs can_open ls =
     (if log_File ls \<noteq> [] then [(''file'', File \<lparr>fh_level = 0, fh_file = log_File ls,
        fh_logger = (if can_open (log_File ls) then Some (log_File ls) else None)\<rparr>)] else []) @
     (if log_Stdout ls then [(''console'', Console \<lparr>ch_level = 0, ch_logger = True\<rparr>)] else [])"

lemma initLogger_new:
  "initLogger can_open ls NewLogger =
     (case LogLevel ls of
        Panic e \<Rightarrow> Panic e
      | Return level \<Rightarrow> Return \<lparr>logger_level = level, mesgs = [], outputs = fmap_of_list (wanted_outputs can_open ls)\<rparr>)"
  by (auto simp: initLogger_def SetLogger_console SetLogger_file wanted_outputs_def SetLevel_def NewLogger_def
      split: outcome.splits)

lemma LogLevel_nonneg: "LogLevel ls = Return level \<Longrightarrow> 0 \<le> level"
  by (auto simp: LogLevel_if split: if_splits)

lemma initLogger_Return:
  assumes "initLogger can_open ls NewLogger = Return l"
  shows "LogLevel ls = Return (logger_level l)" and "mesgs l = []"
    and "outputs l = fmap_of_list (wanted_outputs can_open ls)" and "outputs_ok l"
proof -
  show *: "LogLevel ls = Return (logger_level l)" "mesgs l = []" "outputs l = fmap_of_list (wanted_outputs can_open ls)"
    using assms by (auto simp: initLogger_new split: outcome.splits)
  show "outputs_ok l"
    by (auto simp: outputs_ok_def * wanted_outputs_def fmlookup_of_list split: if_splits)
qed

text \<open>A handler that accepts every level writes all that the level of the logger lets through.\<close>

lemma configured_sink:
  assumes "initLogger can_open ls NewLogger = Return l0" and "log_reachable l0 l sent out" and "mesgs l = []"
    and h: "fmlookup (outputs l0) name = Some h" "handler_ready h" "handler_threshold h = 0"
  shows "to_sink (handler_sink h) out =
    map (\<lambda>lm. (handler_sink h, Mesg_text lm)) (filter (\<lambda>lm. logger_level l0 \<le> Level lm) sent)"
proof -
  note l0 = initLogger_Return [OF assms(1)]
  obtain ds where ds: "accepted l0 sent = ds" "to_sink (handler_sink h) out = lines_of h ds"
    using log_reachable_delivery [OF assms(2) l0(2,4) h(1,2)] assms(3) by auto
  have "filter (\<lambda>lm. 0 \<le> Level lm) (accepted l0 sent) = accepted l0 sent"
    using LogLevel_nonneg [OF l0(1)] by (auto simp: accepted_def intro!: filter_cong)
  with ds h(3) show ?thesis by (simp add: lines_of_def accepted_def)
qed

section \<open>Construction\<close>

lemma int64_interval: "int64 (Second * uint (i :: 32 word)) = Second * uint i"
proof (rule int64_id)
  have "uint i < 4294967296" using uint_lt2p [of i] by simp
  then show "Second * uint i < 2 ^ 63" by simp
  show "- (2 ^ 63) \<le> Second * uint i" using uint_ge_0 [of i] by (simp add: order_trans [of _ 0])
qed

lemma NewHosts_returns: "(\<exists>hs. NewHosts c = Return hs) \<longleftrightarrow> hosts_RefreshInterval c \<noteq> 0"
proof -
  have "Second * uint (hosts_RefreshInterval c) \<le> 0 \<longleftrightarrow> hosts_RefreshInterval c = 0"
    using uint_ge_0 [of "hosts_RefreshInterval c"] by (auto simp: uint_0_iff)
  then show ?thesis by (simp add: NewHosts_def int64_interval)
qed

lemma NewBlocklist_returns:
  "(\<exists>b gs. NewBlocklist fs redis (blocklist_config st) = Return (b, gs)) \<longleftrightarrow>
     \<not> (bl_Enable (Blocklist_settings st) \<and>
        (bl_Backend (Blocklist_settings st) = ''redis'' \<or> bl_RedisEnable (Blocklist_settings st)))"
  by (auto simp: blocklist_config_def Let_def NewBlocklist_def start_redis_def use_redis_def
      NewRedisBlocklist_def split: prod.splits)

lemma load_resolv_file_returns:
  "(\<exists>r'. load_resolv_file resolv_conf path r = Return r') \<longleftrightarrow> (path \<noteq> [] \<longrightarrow> resolv_conf path \<noteq> None)"
  by (auto simp: load_resolv_file_def split: option.splits)

lemma NewResolver_returns:
  "(\<exists>r. NewResolver L fs resolv_conf c = Return (Inr r)) \<longleftrightarrow>
     (\<exists>v. NewDNSSECValidator L fs (TrustAnchorFile c) = Return (Inr v)) \<and>
     (ResolvFile c \<noteq> [] \<longrightarrow> resolv_conf (ResolvFile c) \<noteq> None)"
proof (cases "\<exists>v. NewDNSSECValidator L fs (TrustAnchorFile c) = Return (Inr v)")
  case True
  then obtain v where v: "NewDNSSECValidator L fs (TrustAnchorFile c) = Return (Inr v)" ..
  show ?thesis
    unfolding NewResolver_def v by (simp add: Let_def bind_outcome_Return_iff load_resolv_file_returns)
next
  case False
  then show ?thesis by (auto simp: NewResolver_def bind_outcome_Return_iff split: sum.splits)
qed

lemma NewHandler_returns:
  "(\<exists>h gs. NewHandler L fs resolv_conf redis st = Return (h, gs)) \<longleftrightarrow>
     (\<exists>r. NewResolver L fs resolv_conf (ResolvConfig st) = Return (Inr r)) \<and>
     (\<exists>hs. NewHosts (Hosts_settings st) = Return hs) \<and>
     (\<exists>b gs. NewBlocklist fs redis (blocklist_config st) = Return (b, gs))"
proof
  assume "\<exists>h gs. NewHandler L fs resolv_conf redis st = Return (h, gs)"
  then show "(\<exists>r. NewResolver L fs resolv_conf (ResolvConfig st) = Return (Inr r)) \<and>
     (\<exists>hs. NewHosts (Hosts_settings st) = Return hs) \<and>
     (\<exists>b gs. NewBlocklist fs redis (blocklist_config st) = Return (b, gs))"
    using NewHandler_shape(1,4,5) [of L fs resolv_conf redis st] by blast
qed (auto simp: NewHandler_def split: prod.splits)

section \<open>Properties\<close>



text \<open>The address of a server identifies its host and its port.\<close>

theorem server_address_identifies:
  assumes "bracket_free (server_host s)" and "bracket_free (server_host s')"
  shows "Server_Addr s = Server_Addr s' \<longleftrightarrow> server_host s = server_host s' \<and> server_port s = server_port s'"
proof
  assume "Server_Addr s = Server_Addr s'"
  then have "Some (server_host s, Itoa (server_port s)) = Some (server_host s', Itoa (server_port s'))"
    unfolding Server_Addr_def
    by (metis SplitHostPort_JoinHostPort [OF assms(1) plain_Itoa] SplitHostPort_JoinHostPort [OF assms(2) plain_Itoa])
  then show "server_host s = server_host s' \<and> server_port s = server_port s'" by (simp add: Itoa_inj)
qed (simp add: Server_Addr_def)

text \<open>C21: Logging as configured: once the logger of the program has handled all messages, the console (if it
  is wanted) and the log file (if it is wanted and can be opened) hold exactly the messages from the
  configured level on, in the order in which they were sent.\<close>

theorem configured_logging:
  assumes "initLogger can_open ls NewLogger = Return l0" and "log_reachable l0 l sent out" and "mesgs l = []"
  shows "\<exists>level. LogLevel ls = Return level \<and>
    (log_Stdout ls \<longrightarrow> filter (\<lambda>(s, _). s = Stdout) out =
       map (\<lambda>lm. (Stdout, Mesg_text lm)) (filter (\<lambda>lm. level \<le> Level lm) sent)) \<and>
    (log_File ls \<noteq> [] \<and> can_open (log_File ls) \<longrightarrow> filter (\<lambda>(s, _). s = To_file (log_File ls)) out =
       map (\<lambda>lm. (To_file (log_File ls), Mesg_text lm)) (filter (\<lambda>lm. level \<le> Level lm) sent))"
proof -
  note l0 = initLogger_Return [OF assms(1)]
  have "log_Stdout ls \<Longrightarrow> fmlookup (outputs l0) ''console'' = Some (Console \<lparr>ch_level = 0, ch_logger = True\<rparr>)"
    by (simp add: l0(3) wanted_outputs_def fmlookup_of_list)
  moreover have "log_File ls \<noteq> [] \<and> can_open (log_File ls) \<Longrightarrow>
      fmlookup (outputs l0) ''file'' = Some (File \<lparr>fh_level = 0, fh_file = log_File ls, fh_logger = Some (log_File ls)\<rparr>)"
    by (simp add: l0(3) wanted_outputs_def fmlookup_of_list)
  ultimately show ?thesis
    using l0(1) configured_sink [OF assms] by (intro exI [of _ "logger_level l0"]) fastforce
qed

section \<open>Witnesses\<close>

lemma example_start_facts:
  "log_Level (Log_settings (example_settings b)) = ''INFO''" "TrustAnchorFile plain_settings = []"
  "hosts_RefreshInterval (Hosts_settings (example_settings b)) = 5"
  "bl_Backend (Blocklist_settings (example_settings b)) = ''file''" "\<not> bl_RedisEnable (Blocklist_settings (example_settings b))"
  by (simp_all add: example_settings_def plain_settings_def sample_settings_def sample_conf_def)


lemma example_starts:
  "\<exists>p. godns_Run can_open sample_lib example_fs sample_conf (\<lambda>_. None) (example_settings b) NewLogger = Return p \<and>
     prog_listeners p = listeners \<lparr>server_host = ''127.0.0.1'', server_port = 53, rTimeout = 5 * Second, wTimeout = 5 * Second\<rparr>"
proof -
  obtain h gs where "NewHandler sample_lib example_fs sample_conf (\<lambda>_. None) (example_settings b) = Return (h, gs)"
    using example_NewHandler by blast
  then show ?thesis
    by (simp add: godns_Run_def Server_Run_def initLogger_new LogLevel_if example_start_facts)
       (simp add: example_settings_def)
qed


theorem server_address_identifies_witness:
  "Server_Addr \<lparr>server_host = ''::1'', server_port = 53, rTimeout = 0, wTimeout = 0\<rparr> \<noteq>
   Server_Addr \<lparr>server_host = ''::1'', server_port = 5353, rTimeout = 0, wTimeout = 0\<rparr>"
  using server_address_identifies [of "\<lparr>server_host = ''::1'', server_port = 53, rTimeout = 0, wTimeout = 0\<rparr>"
      "\<lparr>server_host = ''::1'', server_port = 5353, rTimeout = 0, wTimeout = 0\<rparr>"]
  by (simp add: bracket_free_def)

theorem configured_logging_witness:
  "\<exists>l0 l out. initLogger (\<lambda>_. False) \<lparr>log_Stdout = True, log_File = [], log_Level = ''WARN''\<rparr> NewLogger = Return l0 \<and>
     log_reachable l0 l [\<lparr>Level = LevelError, Mesg_text = ''m''\<rparr>] out \<and>
     filter (\<lambda>(s, _). s = Stdout) out = [(Stdout, ''m'')]"
proof -
  let ?ls = "\<lparr>log_Stdout = True, log_File = [], log_Level = ''WARN''\<rparr>"
  let ?m = "\<lparr>Level = LevelError, Mesg_text = ''m''\<rparr>"
  obtain l0 where l0: "initLogger (\<lambda>_. False) ?ls NewLogger = Return l0" "logger_level l0 = 3" "mesgs l0 = []"
    by (simp add: initLogger_new LogLevel_if)
  let ?l = "l0\<lparr>mesgs := [?m]\<rparr>"
  have sent: "log_reachable l0 ?l ([] @ [?m]) []"
    by (rule log_reachable.send [OF log_reachable.start])
       (simp add: writeMesg_def l0(2,3) Level_defs LOG_OUTPUT_BUFFER_def)
  have ok: "outputs_ok ?l" "range_order [''console''] (outputs ?l)"
    using initLogger_Return(3,4) [OF l0(1)]
    by (simp_all add: outputs_ok_def range_order_def wanted_outputs_def)
  obtain l ws where l: "Run_round [''console''] ?l = Return (l, ws)" "mesgs l = []"
    using Run_round_total [OF ok(1)] by fastforce
  have r: "log_reachable l0 l [?m] ws" using log_reachable.round [OF sent ok(2) l(1)] by simp
  from configured_logging [OF l0(1) r l(2)] l0(1) r show ?thesis by (auto simp: LogLevel_if Level_defs)
qed

end
