(* ===== verification/Spec2Isabelle.thy ===== *)
theory Spec2Isabelle
  imports Go_Prelude Go_Net Suffix_Tree Memory_Cache Cache_Threads Settings Blocklist Hosts Domain_Name Lookup
    Cache_Backends Handler Query_Threads Server
begin

text \<open>
  A verification library for GoDNS, a caching and filtering DNS forwarder written in Go.

  \<^bold>\<open>The program.\<close> \<open>main.go\<close> reads the settings, sets up the logger and starts a server (\<open>server.go\<close>) that
  listens on UDP and TCP. Both listeners pass a query to the handler (\<open>handler.go\<close>), which asks in turn
  the blocklist (\<open>features/blocklist\<close>), the hosts (\<open>hosts.go\<close>), the cache of answers and the cache of
  failures (\<open>cache.go\<close>), and at last the resolver (\<open>resolver.go\<close>). The resolver chooses nameservers by a
  tree of domain rules (\<open>sfx_tree.go\<close>) or by their round-trip times, asks all of them at once,
  takes the first answer and validates it (\<open>features/dnssec\<close>) if so configured. Goroutines refresh
  the hosts and the blocklist in the background; all parts log through \<open>internal/log\<close>.

  \<^bold>\<open>The theories.\<close> Each models one part: a struct is a record or a datatype under its own name, a
  function or method is a definition under its name (methods with the name of their type in front
  where two types share one), a loop is a recursive function, a pointer that may be \<open>nil\<close> is an option, an
  error is a value of a sum or an option, and a panic is the constructor \<open>Panic\<close> of \<open>outcome\<close>.

  \<^item> \<open>Go_Prelude\<close>, \<open>Go_Net\<close>, \<open>Go_Float\<close>, \<open>Go_MD5\<close>: what the sources use of Go and its standard library:
    strings, 64-bit integers and durations, finite maps with arbitrary orders of iteration,
    panics, line scanners, IP addresses, host and port, the average in floating point, MD5.
  \<^item> \<open>Suffix_Tree\<close> (\<open>sfx_tree.go\<close>): the tree implements a map from domains to rules; its search is the
    longest match, with the exception that the code makes; deletion equals a recursive
    deletion; well-formedness is invariant.
  \<^item> \<open>Memory_Cache\<close>, \<open>Cache_Threads\<close> (\<open>cache.go\<close>): the contract of a bounded cache with lifetimes, and its
    critical sections as a step relation for any number of goroutines, with the bound that still holds
    and the anomalies that are possible.
  \<^item> \<open>Cache_Backends\<close> (\<open>cache.go\<close>): the caches over Memcached and Redis, the interface \<open>Cache\<close>, \<open>KeyGen\<close>;
    what was written is read back.
  \<^item> \<open>Log\<close> (\<open>internal/log/log.go\<close>), \<open>Settings\<close> (\<open>settings.go\<close>): delivery of messages without loss or
    reordering through the bounded channel; the configuration.
  \<^item> \<open>Blocklist\<close> (\<open>features/blocklist\<close>): two backends under one contract, the decision to block.
  \<^item> \<open>Hosts\<close> (\<open>hosts.go\<close>), \<open>Domain_Name\<close> (\<open>utils.go\<close>): tables of hosts with wildcards, their refresh, the
    types of the addresses returned; the regular expression of \<open>isDomain\<close>.
  \<^item> \<open>Dns\<close>: the data of the package \<open>miekg/dns\<close>, and its functions as a record of parameters.
  \<^item> \<open>Trust_Anchors\<close>, \<open>Dnssec\<close> (\<open>features/dnssec\<close>): loading of anchors, the cache of DS records,
    validation along the chain of trust; soundness, termination, and what soundness does not cover.
  \<^item> \<open>Resolver\<close>, \<open>Lookup\<close> (\<open>resolver.go\<close>): construction, choice of nameservers, round-trip times; \<open>Lookup\<close> as
    a step relation over the caller, the workers and the channel: results, termination, a leak.
  \<^item> \<open>Handler\<close> (\<open>handler.go\<close>): the construction of all parts and \<open>Do\<close>, and what a client gets over any
    sequence of queries and refreshes, which rests on the contracts of the caches, the
    blocklist and the resolver.
  \<^item> \<open>Query_Threads\<close> (\<open>handler.go\<close>): \<open>Do\<close> cut at its calls on the shared parts, as a step relation for any number
    of overlapping queries; each is answered once, can always go on, and alone behaves as \<open>Do\<close>.
  \<^item> \<open>Server\<close> (\<open>server.go\<close>, \<open>main.go\<close>): the listeners, the set-up of the logger, and which configurations
    start.

  \<^bold>\<open>Interfaces.\<close> The contracts between the parts are locales, each interpreted on the model:
  \<open>domain_rules\<close> (\<open>Suffix_Tree\<close>), \<open>bounded_cache\<close> (\<open>Memory_Cache\<close>), \<open>remote_cache\<close> (Redis and Memcached), \<open>log_handler\<close>
  (console, file and their sum), \<open>domain_list\<close> (file and Redis lists), \<open>host_table\<close> (file and Redis
  tables), \<open>pool_update\<close> (failures, answers and both), and \<open>answer_cache\<close>, what the handler needs of a
  cache (memory and Memcached; the Redis cache does not satisfy it, which is the theorem
  \<open>redis_failure_then_panic\<close>).

  \<^bold>\<open>Parameters.\<close> Code that is not in the repository is an argument: the package \<open>dns\<close> (\<open>dns_lib\<close>), the
  exchange of messages and the clock (\<open>dns_env\<close>, \<open>network\<close>), the clients of Redis and Memcached
  (\<open>cache_servers\<close>, \<open>smembers\<close>, \<open>hgetall\<close>), the parser of \<open>resolv.conf\<close>, the file system. Nothing is assumed of
  them but where a theorem has a named hypothesis (\<open>fqdn_spec\<close>, \<open>split_spec\<close>, \<open>pack_law\<close>, \<open>redis_law\<close>,
  \<open>memcache_law\<close>), which its witness discharges for a concrete instance. The order in which a range
  visits a map is an argument as well, so that a theorem holds for every order.

  \<^bold>\<open>Fuel.\<close> Only the climb along the chain of trust has fuel. Each round moves to a proper suffix of
  the name, so the length of the name of the first key is enough (\<open>validate_terminates\<close>). The other
  loops are structural, or have a measure.

  \<^bold>\<open>Concurrency.\<close> The goroutines of \<open>Lookup\<close> and of the memory cache, and the sender and receiver of the
  log channel, are interleaved step by step. Queries that overlap are interleaved at their calls on
  the blocklist, the hosts, the caches and the resolver (\<open>Query_Threads\<close>), with the rounds of the
  refreshing goroutines and the updates of the round-trip times in between; a call of the cache is one
  step there, and its critical sections are the steps of \<open>Cache_Threads\<close>.

  \<^bold>\<open>Not modelled.\<close> Parsing of flags and of the TOML file, sockets, signals, profiling and \<open>GOMAXPROCS\<close>
  (calls of libraries and of the runtime without a logic of their own); \<open>JsonSerializer\<close>, which the program
  does not use; the texts that \<open>fmt\<close> makes for log messages, and the log calls inside the handler,
  the resolver and the validator, but for those that can panic; \<open>tests\<close>.

  \<^bold>\<open>Plan.\<close> Overlapping queries over the critical sections of the memory cache instead of its calls; the
  log calls of the handler; the cache of DS records as a map with lifetimes.
\<close>

end
